theory Spec2Isabelle
  imports Complex_Main
begin

section \<open>Conventions of the embedding\<close>

text \<open>
  The development embeds \<^verbatim>\<open>neat_impl.hpp\<close> (the NEAT engine: constructor,
  \<^verbatim>\<open>Reproduce\<close>, \<^verbatim>\<open>Crossover\<close>) and the \<^verbatim>\<open>RankSelection\<close> policy.

  \<^item> A \<^verbatim>\<open>double\<close> is a \<open>real\<close>, a finite value. The sum, difference, product
    or quotient of two doubles is the exact result rounded to a double: the rounding
    is the parameter \<open>fl\<close> of the arithmetic, about which nothing is assumed. A
    comparison of two doubles and \<^verbatim>\<open>std::round\<close> are exact, and so is the conversion
    of a count to a double. The quotient by zero is written out, see \<open>fdiv\<close>.
  \<^item> A \<^verbatim>\<open>size_t\<close> is a \<open>nat\<close> with the 64-bit wrap-around written out where the
    code computes with it.
  \<^item> \<^verbatim>\<open>arma::randu<double>()\<close> reads a global generator. The run's sequence of
    draws is a function \<open>draws :: nat \<Rightarrow> real\<close>, and the number of draws made so far
    is threaded through every function that calls \<^verbatim>\<open>randu\<close>.
  \<^item> Whatever C++ leaves undefined (an index past the end of a vector, an integer
    division by zero, a conversion out of range) is an \<open>error\<close> value.
  \<^item> A \<^verbatim>\<open>while\<close> loop with no bound on its iterations takes a fuel argument, the
    number of iterations it may make; it returns \<open>OutOfFuel\<close> when the loop condition
    still holds after that many.
\<close>

datatype error = OutOfBounds | DivisionByZero | IntOverflow | OutOfFuel

type_synonym draws = "nat \<Rightarrow> real"

text \<open>
  The arithmetic of the machine and of the Armadillo library, neither of which is among
  the sources: \<open>fl x\<close> is the double that the exact result \<open>x\<close> of an operation
  is rounded to, and \<open>accu xs\<close> is what \<^verbatim>\<open>arma::accu\<close> returns for the vector
  \<open>xs\<close>, the sum of its elements in the order and with the roundings of the
  library. Every function that computes with doubles takes the arithmetic as its first
  argument.
\<close>

record arith =
  fl :: "real \<Rightarrow> real"
  accu :: "real list \<Rightarrow> real"

section \<open>Data model\<close>

text \<open>
  Modelled from the spec: class \<^verbatim>\<open>ConnectionGene\<close> is not among the sources. Its
  attributes are those of the data model (source node, target node, weight, enabled
  flag, innovation number); the accessors \<^verbatim>\<open>Weight()\<close>, \<^verbatim>\<open>Enabled()\<close> and
  \<^verbatim>\<open>InnovationID()\<close> are named as \<^verbatim>\<open>Crossover\<close> calls them.
\<close>

record ConnectionGene =
  source :: nat
  target :: nat
  Weight :: real
  Enabled :: bool
  InnovationID :: nat

text \<open>
  Modelled from the spec: class \<^verbatim>\<open>Genome\<close> is not among the sources. A genome holds
  its connection genes, the depth of each node, its node count and its fitness;
  \<^verbatim>\<open>getNodeCount()\<close> is the total node count, which is the \<^verbatim>\<open>nextNodeID\<close> that the
  constructors receive.
\<close>

record Genome =
  connectionGeneList :: "ConnectionGene list"
  nodeDepths :: "nat list"
  nextNodeID :: nat
  Fitness :: real

definition getNodeCount :: "Genome \<Rightarrow> nat" where
  "getNodeCount g = nextNodeID g"

text \<open>
  Modelled from the spec: the two constructors that \<^verbatim>\<open>Crossover\<close> calls, with and
  without a depth table. They store what they are given. The fitness of a genome is
  undefined until the task evaluates it; the model starts it at 0. The engine's
  parameters, handed on unchanged, are left out.
\<close>

definition Genome_with_depths :: "ConnectionGene list \<Rightarrow> nat list \<Rightarrow> nat \<Rightarrow> Genome" where
  "Genome_with_depths genes depths nodeID =
     \<lparr>connectionGeneList = genes, nodeDepths = depths, nextNodeID = nodeID, Fitness = 0\<rparr>"

definition Genome_of_genes :: "ConnectionGene list \<Rightarrow> nat \<Rightarrow> Genome" where
  "Genome_of_genes genes nodeID =
     \<lparr>connectionGeneList = genes, nodeDepths = [], nextNodeID = nodeID, Fitness = 0\<rparr>"

text \<open>The members of class \<^verbatim>\<open>NEAT\<close>, without the task and the centroids.\<close>

record NEAT =
  inputNodeCount :: nat
  outputNodeCount :: nat
  popSize :: nat
  maxGen :: nat
  numSpecies :: nat
  bias :: real
  weightMutationProb :: real
  weightMutationSize :: real
  biasMutationProb :: real
  biasMutationSize :: real
  nodeAdditionProb :: real
  connAdditionProb :: real
  disableProb :: real
  elitismProp :: real
  isAcyclic :: bool
  genomeList :: "Genome list"
  speciesList :: "Genome list list"

text \<open>
  The constructor, lines 25 to 58. Its initialiser list stores the fifteen parameters
  and its body is empty: it has no check and no \<^verbatim>\<open>throw\<close>. The result type
  is that of the other operations, so that a failing construction could be written.
\<close>

definition NEAT_new ::
  "nat \<Rightarrow> nat \<Rightarrow> nat \<Rightarrow> nat \<Rightarrow> nat \<Rightarrow> real \<Rightarrow> real \<Rightarrow> real \<Rightarrow> real \<Rightarrow> real \<Rightarrow> real \<Rightarrow> real
   \<Rightarrow> real \<Rightarrow> real \<Rightarrow> bool \<Rightarrow> error + NEAT" where
  "NEAT_new inputNodeCount' outputNodeCount' popSize' maxGen' numSpecies' bias'
     weightMutationProb' weightMutationSize' biasMutationProb' biasMutationSize'
     nodeAdditionProb' connAdditionProb' disableProb' elitismProp' isAcyclic' =
     Inr \<lparr>inputNodeCount = inputNodeCount', outputNodeCount = outputNodeCount',
          popSize = popSize', maxGen = maxGen', numSpecies = numSpecies', bias = bias',
          weightMutationProb = weightMutationProb',
          weightMutationSize = weightMutationSize',
          biasMutationProb = biasMutationProb', biasMutationSize = biasMutationSize',
          nodeAdditionProb = nodeAdditionProb', connAdditionProb = connAdditionProb',
          disableProb = disableProb', elitismProp = elitismProp',
          isAcyclic = isAcyclic', genomeList = [], speciesList = []\<rparr>"

text \<open>Reading a vector at an index: past the end is undefined in C++.\<close>

definition vec_at :: "'a list \<Rightarrow> nat \<Rightarrow> error + 'a" where
  "vec_at xs i = (if i < length xs then Inr (xs ! i) else Inl OutOfBounds)"

section \<open>RankSelection\<close>

text \<open>\<^verbatim>\<open>size_t\<close> arithmetic: results are taken modulo \<open>2 ^ 64\<close>.\<close>

definition size_max :: nat where
  "size_max = 2 ^ 64"

definition sub64 :: "nat \<Rightarrow> nat \<Rightarrow> nat" where
  "sub64 a b = (a + size_max - b mod size_max) mod size_max"

definition mul64 :: "nat \<Rightarrow> nat \<Rightarrow> nat" where
  "mul64 a b = (a * b) mod size_max"

definition add64 :: "nat \<Rightarrow> nat \<Rightarrow> nat" where
  "add64 a b = (a + b) mod size_max"

text \<open>
  \<^verbatim>\<open>double prob = (size - pos) * 2 / (size * (size + 1));\<close>
  All four operands are \<^verbatim>\<open>size_t\<close>, so the quotient is an integer division whose result
  is then converted to \<^verbatim>\<open>double\<close>. A zero divisor is undefined.
\<close>

definition prob :: "nat \<Rightarrow> nat \<Rightarrow> error + nat" where
  "prob sz pos =
     (let den = mul64 sz (add64 sz 1)
      in if den = 0 then Inl DivisionByZero
         else Inr (mul64 (sub64 sz pos) 2 div den))"

text \<open>
  The first loop, \<^verbatim>\<open>while (selection[0] == fitnesses.n_elem)\<close>. The state is
  \<open>selection[0]\<close>, \<open>pos\<close> and the number of draws made.
\<close>

fun choose_first :: "draws \<Rightarrow> nat \<Rightarrow> nat \<Rightarrow> nat \<Rightarrow> nat \<Rightarrow> nat \<Rightarrow> error + (nat \<times> nat)" where
  "choose_first d 0 sz sel0 pos r =
     (if sel0 = sz then Inl OutOfFuel else Inr (sel0, r))"
| "choose_first d (Suc fuel) sz sel0 pos r =
     (if sel0 = sz then
        (let pos1 = (if sz \<le> pos then 0 else pos)
         in case prob sz pos1 of
              Inl e \<Rightarrow> Inl e
            | Inr p \<Rightarrow>
                choose_first d fuel sz (if d r < real p then pos1 else sel0)
                  (add64 pos1 1) (Suc r))
      else Inr (sel0, r))"

text \<open>
  The second loop,
  \<^verbatim>\<open>while (selection[1] == fitnesses.n_elem && selection[0] != selection[1])\<close>.
\<close>

fun choose_second :: "draws \<Rightarrow> nat \<Rightarrow> nat \<Rightarrow> nat \<Rightarrow> nat \<Rightarrow> nat \<Rightarrow> nat \<Rightarrow> error + (nat \<times> nat)" where
  "choose_second d 0 sz sel0 sel1 pos r =
     (if sel1 = sz \<and> sel0 \<noteq> sel1 then Inl OutOfFuel else Inr (sel1, r))"
| "choose_second d (Suc fuel) sz sel0 sel1 pos r =
     (if sel1 = sz \<and> sel0 \<noteq> sel1 then
        (let pos1 = (if sz \<le> pos then 0 else pos)
         in case prob sz pos1 of
              Inl e \<Rightarrow> Inl e
            | Inr p \<Rightarrow>
                choose_second d fuel sz sel0 (if d r < real p then pos1 else sel1)
                  (add64 pos1 1) (Suc r))
      else Inr (sel1, r))"

text \<open>
  \<^verbatim>\<open>RankSelection::Select(fitnesses, selection)\<close>. Only the length of \<open>fitnesses\<close>
  is read. The result is the two-element vector \<open>selection\<close> and the draw count.
\<close>

definition Select :: "draws \<Rightarrow> nat \<Rightarrow> real list \<Rightarrow> nat \<Rightarrow> error + (nat list \<times> nat)" where
  "Select d fuel fitnesses r =
     (let sz = length fitnesses
      in case choose_first d fuel sz sz 0 r of
           Inl e \<Rightarrow> Inl e
         | Inr (sel0, r1) \<Rightarrow>
             (case choose_second d fuel sz sel0 sz 0 r1 of
                Inl e \<Rightarrow> Inl e
              | Inr (sel1, r2) \<Rightarrow> Inr ([sel0, sel1], r2)))"

section \<open>Crossover\<close>

text \<open>
  \<^verbatim>\<open>bool equalFitness = std::abs(gen1.Fitness() - gen2.Fitness()) < 0.001;\<close>
  The difference is rounded, and the literal is the double nearest to one thousandth.
\<close>

definition equalFitness :: "arith \<Rightarrow> Genome \<Rightarrow> Genome \<Rightarrow> bool" where
  "equalFitness a gen1 gen2 = (\<bar>fl a (Fitness gen1 - Fitness gen2)\<bar> < fl a (1 / 1000))"

text \<open>
  The body of the match, lines 279 to 291, for the gene \<open>c\<close> of \<open>newConnGeneList\<close>
  and the gene \<open>lc\<close> of the less fit genome with the same innovation number. The
  enabled flag is drawn again when either copy is disabled; the weight is taken from
  the less fit genome on a draw below one half.
\<close>

definition inherit_gene ::
  "draws \<Rightarrow> real \<Rightarrow> ConnectionGene \<Rightarrow> ConnectionGene \<Rightarrow> nat \<Rightarrow> ConnectionGene \<times> nat" where
  "inherit_gene d dp c lc r =
     (let (c1, r1) =
            (if \<not> Enabled c \<or> \<not> Enabled lc
             then (c\<lparr>Enabled := \<not> (d r < dp)\<rparr>, Suc r)
             else (c, r))
      in (if d r1 < 1 / 2 then c1\<lparr>Weight := Weight lc\<rparr> else c1, Suc r1))"

text \<open>
  The inner loop, \<^verbatim>\<open>for (size_t j = k; j < newConnGeneList.size(); j++)\<close>, for one gene
  \<open>lc\<close> of the less fit genome. It stops at the first match, where it sets \<open>k\<close>.
  The result is \<open>newConnGeneList\<close>, \<open>k\<close> and the draw count.
\<close>

function match_gene ::
  "draws \<Rightarrow> real \<Rightarrow> ConnectionGene \<Rightarrow> nat \<Rightarrow> nat \<Rightarrow> ConnectionGene list \<Rightarrow> nat
   \<Rightarrow> ConnectionGene list \<times> nat \<times> nat" where
  "match_gene d dp lc k j newConnGeneList r =
     (if j < length newConnGeneList then
        (if InnovationID lc = InnovationID (newConnGeneList ! j) then
           (case inherit_gene d dp (newConnGeneList ! j) lc r of
              (c, r1) \<Rightarrow> (newConnGeneList[j := c], j, r1))
         else match_gene d dp lc k (Suc j) newConnGeneList r)
      else (newConnGeneList, k, r))"
  by pat_completeness auto
termination
  by (relation "measure (\<lambda>(d, dp, lc, k, j, new, r). length new - j)") auto

declare match_gene.simps [simp del]

text \<open>
  The outer loop, over the genes of the less fit genome, which is a copy and is only
  read.
\<close>

fun match_genes ::
  "draws \<Rightarrow> real \<Rightarrow> ConnectionGene list \<Rightarrow> nat \<Rightarrow> ConnectionGene list \<Rightarrow> nat
   \<Rightarrow> ConnectionGene list \<times> nat" where
  "match_genes d dp [] k newConnGeneList r = (newConnGeneList, r)"
| "match_genes d dp (lc # rest) k newConnGeneList r =
     (case match_gene d dp lc k k newConnGeneList r of
        (new1, k1, r1) \<Rightarrow> match_genes d dp rest k1 new1 r1)"

text \<open>
  The first loop of the gene merge, \<^verbatim>\<open>while (j < minSize)\<close>, lines 322 to 345. Every
  iteration makes one draw. An index is advanced only together with a
  \<^verbatim>\<open>push_back\<close>, except where the two innovation numbers are equal. The result is
  \<open>i\<close>, \<open>newConnGeneList\<close> and the draw count.
\<close>

fun merge_common ::
  "draws \<Rightarrow> nat \<Rightarrow> ConnectionGene list \<Rightarrow> ConnectionGene list \<Rightarrow> nat \<Rightarrow> nat \<Rightarrow> nat
   \<Rightarrow> ConnectionGene list \<Rightarrow> nat \<Rightarrow> error + (nat \<times> ConnectionGene list \<times> nat)" where
  "merge_common d 0 maxGenes minGenes minSize i j newConnGeneList r =
     (if j < minSize then Inl OutOfFuel else Inr (i, newConnGeneList, r))"
| "merge_common d (Suc fuel) maxGenes minGenes minSize i j newConnGeneList r =
     (if j < minSize then
        (if length maxGenes \<le> i \<or> length minGenes \<le> j then Inl OutOfBounds
         else if InnovationID (minGenes ! j) < InnovationID (maxGenes ! i) then
           (if d r < 1 / 2
            then merge_common d fuel maxGenes minGenes minSize i (Suc j)
                   (newConnGeneList @ [minGenes ! j]) (Suc r)
            else merge_common d fuel maxGenes minGenes minSize i j newConnGeneList (Suc r))
         else if InnovationID (minGenes ! j) = InnovationID (maxGenes ! i) then
           merge_common d fuel maxGenes minGenes minSize (Suc i) (Suc j)
             (newConnGeneList @ [if d r < 1 / 2 then minGenes ! j else maxGenes ! i])
             (Suc r)
         else
           (if d r < 1 / 2
            then merge_common d fuel maxGenes minGenes minSize (Suc i) j
                   (newConnGeneList @ [maxGenes ! i]) (Suc r)
            else merge_common d fuel maxGenes minGenes minSize i j newConnGeneList (Suc r)))
      else Inr (i, newConnGeneList, r))"

text \<open>The second loop, \<^verbatim>\<open>while (i < maxSize)\<close>, lines 346 to 350.\<close>

fun merge_rest ::
  "draws \<Rightarrow> nat \<Rightarrow> ConnectionGene list \<Rightarrow> nat \<Rightarrow> nat \<Rightarrow> ConnectionGene list \<Rightarrow> nat
   \<Rightarrow> error + (ConnectionGene list \<times> nat)" where
  "merge_rest d 0 maxGenes maxSize i newConnGeneList r =
     (if i < maxSize then Inl OutOfFuel else Inr (newConnGeneList, r))"
| "merge_rest d (Suc fuel) maxGenes maxSize i newConnGeneList r =
     (if i < maxSize then
        (if length maxGenes \<le> i then Inl OutOfBounds
         else if d r < 1 / 2
         then merge_rest d fuel maxGenes maxSize (Suc i) (newConnGeneList @ [maxGenes ! i])
                (Suc r)
         else merge_rest d fuel maxGenes maxSize i newConnGeneList (Suc r))
      else Inr (newConnGeneList, r))"

text \<open>
  What a call of \<^verbatim>\<open>Crossover(gen1, gen2)\<close> leaves behind: the child it returns, the
  values that the two reference parameters hold when it returns, and the draw count.
\<close>

record crossed =
  child :: Genome
  gen1_after :: Genome
  gen2_after :: Genome
  draws_made :: nat

text \<open>
  The branch of lines 231 to 312, taken when the fitnesses differ or the engine is
  acyclic. The base is the fitter parent, or a drawn one when the fitnesses are equal.
  \<open>newConnGeneList\<close>, \<open>nodeDepths\<close> and \<open>lessFitGenome\<close> are copies; the loop writes
  to \<open>newConnGeneList\<close> only.
\<close>

definition choose_base ::
  "arith \<Rightarrow> draws \<Rightarrow> Genome \<Rightarrow> Genome \<Rightarrow> nat \<Rightarrow> Genome \<times> Genome \<times> nat" where
  "choose_base a d gen1 gen2 r =
     (if equalFitness a gen1 gen2 then
        (if d r < 1 / 2 then (gen1, gen2, Suc r) else (gen2, gen1, Suc r))
      else if Fitness gen1 > Fitness gen2 then (gen1, gen2, r)
      else (gen2, gen1, r))"

definition cross_base ::
  "arith \<Rightarrow> NEAT \<Rightarrow> draws \<Rightarrow> Genome \<Rightarrow> Genome \<Rightarrow> nat \<Rightarrow> crossed" where
  "cross_base a neat d gen1 gen2 r =
     (case choose_base a d gen1 gen2 r of
        (base, lessFitGenome, r1) \<Rightarrow>
          (case match_genes d (disableProb neat) (connectionGeneList lessFitGenome) 0
                  (connectionGeneList base) r1 of
             (newConnGeneList, r2) \<Rightarrow>
               \<lparr>child =
                  (if isAcyclic neat
                   then Genome_with_depths newConnGeneList (nodeDepths base)
                          (getNodeCount base)
                   else Genome_of_genes newConnGeneList (getNodeCount base)),
                gen1_after = gen1, gen2_after = gen2, draws_made = r2\<rparr>))"

text \<open>
  The branch of lines 313 to 358, the gene merge. \<open>maxGenome\<close> and \<open>minGenome\<close> are
  references to the parents, chosen by two strict comparisons of the sizes: parents
  with equally many genes make both of them \<open>gen2\<close>.
\<close>

definition cross_merge ::
  "draws \<Rightarrow> nat \<Rightarrow> Genome \<Rightarrow> Genome \<Rightarrow> nat \<Rightarrow> error + crossed" where
  "cross_merge d fuel gen1 gen2 r =
     (let gen1size = length (connectionGeneList gen1);
          gen2size = length (connectionGeneList gen2);
          maxSize = (if gen1size > gen2size then gen1size else gen2size);
          minSize = (if gen1size < gen2size then gen1size else gen2size);
          maxGenome = (if gen1size > gen2size then gen1 else gen2);
          minGenome = (if gen1size < gen2size then gen1 else gen2)
      in case merge_common d fuel (connectionGeneList maxGenome)
                (connectionGeneList minGenome) minSize 0 0 [] r of
           Inl e \<Rightarrow> Inl e
         | Inr (i, new1, r1) \<Rightarrow>
             (case merge_rest d fuel (connectionGeneList maxGenome) maxSize i new1 r1 of
                Inl e \<Rightarrow> Inl e
              | Inr (newConnGeneList, r2) \<Rightarrow>
                  Inr \<lparr>child =
                         Genome_of_genes newConnGeneList
                           (if getNodeCount gen1 > getNodeCount gen2
                            then getNodeCount gen1 else getNodeCount gen2),
                       gen1_after = gen1, gen2_after = gen2, draws_made = r2\<rparr>))"

definition Crossover ::
  "arith \<Rightarrow> NEAT \<Rightarrow> draws \<Rightarrow> nat \<Rightarrow> Genome \<Rightarrow> Genome \<Rightarrow> nat \<Rightarrow> error + crossed" where
  "Crossover a neat d fuel gen1 gen2 r =
     (if \<not> equalFitness a gen1 gen2 \<or> isAcyclic neat
      then Inr (cross_base a neat d gen1 gen2 r)
      else cross_merge d fuel gen1 gen2 r)"

text \<open>Every connection gene of the genome joins two of its nodes.\<close>

definition refs_ok :: "Genome \<Rightarrow> bool" where
  "refs_ok g =
     (\<forall>c\<in>set (connectionGeneList g). source c < getNodeCount g \<and> target c < getNodeCount g)"

text \<open>
  The order of the data model: along the connection list the innovation numbers
  ascend strictly. The gene merge aligns its parents by this order.
\<close>

definition ascending :: "Genome \<Rightarrow> bool" where
  "ascending g = sorted_wrt (<) (map InnovationID (connectionGeneList g))"

text \<open>
  The genes collected so far come before the gene at index \<open>i\<close> of \<open>genes\<close>, where
  there is one. The proofs about the gene merge carry this through both of its while statements.
\<close>

definition below :: "ConnectionGene list \<Rightarrow> ConnectionGene list \<Rightarrow> nat \<Rightarrow> bool" where
  "below new genes i =
     (\<forall>c\<in>set new. i < length genes \<longrightarrow> InnovationID c < InnovationID (genes ! i))"

section \<open>Reproduce\<close>

text \<open>
  Division of doubles. The quotient by zero is not a number or is infinite, and neither
  \<^verbatim>\<open>arma::accu\<close> nor \<^verbatim>\<open>std::round\<close> nor a product brings such a value back to a
  finite one: every division of \<^verbatim>\<open>Reproduce\<close> feeds
  \<^verbatim>\<open>int delta = popSize - accu(speciesSize)\<close>, a conversion that is undefined for it.
  The model gives the error at the division. Any other quotient is rounded.
\<close>

definition fdiv :: "arith \<Rightarrow> real \<Rightarrow> real \<Rightarrow> error + real" where
  "fdiv a x y = (if y = 0 then Inl DivisionByZero else Inr (fl a (x / y)))"

text \<open>A sum accumulated by \<^verbatim>\<open>+=\<close> from zero, each addition rounded.\<close>

definition fsum :: "arith \<Rightarrow> real list \<Rightarrow> real" where
  "fsum a xs = foldl (\<lambda>s x. fl a (s + x)) 0 xs"

text \<open>\<^verbatim>\<open>std::round\<close>: to the nearest integer, halves away from zero.\<close>

definition std_round :: "real \<Rightarrow> int" where
  "std_round x = (if 0 \<le> x then \<lfloor>x + 1 / 2\<rfloor> else \<lceil>x - 1 / 2\<rceil>)"

text \<open>The conversion of a double with an integer value to \<^verbatim>\<open>int\<close>.\<close>

definition to_int :: "int \<Rightarrow> error + int" where
  "to_int v = (if - (2 ^ 31) \<le> v \<and> v < 2 ^ 31 then Inr v else Inl IntOverflow)"

text \<open>The results of a loop's iterations, up to the first error.\<close>

fun collect :: "(error + 'a) list \<Rightarrow> error + 'a list" where
  "collect [] = Inr []"
| "collect (x # xs) =
     (case x of
        Inl e \<Rightarrow> Inl e
      | Inr v \<Rightarrow> (case collect xs of Inl e \<Rightarrow> Inl e | Inr vs \<Rightarrow> Inr (v # vs)))"

text \<open>
  Lines 119 to 124: the fitnesses of a species are summed and the sum is divided by
  the size of the species, whatever that size is.
\<close>

definition meanFitness :: "arith \<Rightarrow> Genome list \<Rightarrow> error + real" where
  "meanFitness a species = fdiv a (fsum a (map Fitness species)) (real (length species))"

definition meanFitnesses :: "arith \<Rightarrow> NEAT \<Rightarrow> error + real list" where
  "meanFitnesses a neat =
     collect (map (\<lambda>i. case vec_at (speciesList neat) i of
                          Inl e \<Rightarrow> Inl e
                        | Inr species \<Rightarrow> meanFitness a species)
                [0..<numSpecies neat])"

text \<open>
  Lines 125 to 129: \<^verbatim>\<open>double totalMeanFitness = arma::accu(meanFitnesses)\<close> and
  \<^verbatim>\<open>speciesSize[i] = std::round(meanFitnesses[i] / totalMeanFitness * popSize)\<close>.
  The quotient is rounded, then its product with \<open>popSize\<close> is rounded, and
  \<^verbatim>\<open>std::round\<close> is applied to that double.
\<close>

definition allotted :: "arith \<Rightarrow> nat \<Rightarrow> real \<Rightarrow> real \<Rightarrow> error + int" where
  "allotted a popSize' totalMeanFitness mean =
     (case fdiv a mean totalMeanFitness of
        Inl e \<Rightarrow> Inl e
      | Inr q \<Rightarrow> Inr (std_round (fl a (q * real popSize'))))"

definition allot :: "arith \<Rightarrow> nat \<Rightarrow> real list \<Rightarrow> error + int list" where
  "allot a popSize' means = collect (map (allotted a popSize' (accu a means)) means)"

text \<open>
  Lines 133 to 141: \<^verbatim>\<open>while (delta > 0) { speciesSize[i++]++; delta--; }\<close>
\<close>

function fill_deficit :: "int \<Rightarrow> nat \<Rightarrow> int list \<Rightarrow> error + int list" where
  "fill_deficit delta i speciesSize =
     (if 0 < delta then
        (if i < length speciesSize
         then fill_deficit (delta - 1) (Suc i) (speciesSize[i := speciesSize ! i + 1])
         else Inl OutOfBounds)
      else Inr speciesSize)"
  by pat_completeness auto
termination
  by (relation "measure (\<lambda>(delta, i, s). nat delta)") auto

declare fill_deficit.simps [simp del]

text \<open>
  Lines 143 to 151: \<^verbatim>\<open>while (delta < 0) { speciesSize[i++]--; delta--; }\<close>
  \<open>delta\<close> is an \<^verbatim>\<open>int\<close>: decrementing the least one is undefined.
\<close>

function remove_excess :: "int \<Rightarrow> nat \<Rightarrow> int list \<Rightarrow> error + int list" where
  "remove_excess delta i speciesSize =
     (if delta < 0 then
        (if i < length speciesSize then
           (if delta = - (2 ^ 31) then Inl IntOverflow
            else remove_excess (delta - 1) (Suc i) (speciesSize[i := speciesSize ! i - 1]))
         else Inl OutOfBounds)
      else Inr speciesSize)"
  by pat_completeness auto
termination
  by (relation "measure (\<lambda>(delta, i, s). length s - i)") auto

declare remove_excess.simps [simp del]

text \<open>
  Lines 132 to 151, from the rounded allotments to the sizes of the species. The
  allotments are integers: their sum and its difference from \<open>popSize\<close> are exact.
\<close>

definition reconcile :: "nat \<Rightarrow> int list \<Rightarrow> error + int list" where
  "reconcile popSize' speciesSize =
     (case to_int (int popSize' - sum_list speciesSize) of
        Inl e \<Rightarrow> Inl e
      | Inr delta \<Rightarrow>
          if 0 < delta then fill_deficit delta 0 speciesSize
          else if delta < 0 then remove_excess delta 0 speciesSize
          else Inr speciesSize)"

definition speciesSizes :: "arith \<Rightarrow> NEAT \<Rightarrow> error + int list" where
  "speciesSizes a neat =
     (case meanFitnesses a neat of
        Inl e \<Rightarrow> Inl e
      | Inr means \<Rightarrow>
          (case allot a (popSize neat) means of
             Inl e \<Rightarrow> Inl e
           | Inr speciesSize \<Rightarrow> reconcile (popSize neat) speciesSize))"

text \<open>Lines 154 to 160, the number of elite members of a species.\<close>

definition elite_count :: "arith \<Rightarrow> real \<Rightarrow> int \<Rightarrow> int" where
  "elite_count a elitismProp' size' =
     (let n = std_round (fl a (elitismProp' * real_of_int size')) in if n = 0 then 1 else n)"

definition compareGenome :: "Genome \<Rightarrow> Genome \<Rightarrow> bool" where
  "compareGenome gen1 gen2 = (Fitness gen1 > Fitness gen2)"

text \<open>
  \<^verbatim>\<open>std::sort(first, last, comp)\<close> orders the elements of the range from \<open>first\<close>
  to \<open>last\<close> and leaves the others where they are. The order it gives to
  equivalent elements is not specified; the model sorts by insertion.
\<close>

fun insert_by :: "('a \<Rightarrow> 'a \<Rightarrow> bool) \<Rightarrow> 'a \<Rightarrow> 'a list \<Rightarrow> 'a list" where
  "insert_by cmp x [] = [x]"
| "insert_by cmp x (y # ys) = (if cmp x y then x # y # ys else y # insert_by cmp x ys)"

fun sort_by :: "('a \<Rightarrow> 'a \<Rightarrow> bool) \<Rightarrow> 'a list \<Rightarrow> 'a list" where
  "sort_by cmp [] = []"
| "sort_by cmp (x # xs) = insert_by cmp x (sort_by cmp xs)"

definition std_sort :: "('a \<Rightarrow> 'a \<Rightarrow> bool) \<Rightarrow> nat \<Rightarrow> nat \<Rightarrow> 'a list \<Rightarrow> 'a list" where
  "std_sort cmp first' last' xs =
     take first' xs @ sort_by cmp (take (last' - first') (drop first' xs)) @ drop last' xs"

text \<open>
  Line 167: \<^verbatim>\<open>std::sort(speciesList[i].begin(), speciesList[i].begin(), compareGenome)\<close>.
  Both iterators are \<^verbatim>\<open>begin()\<close>: the range is from 0 to 0.
\<close>

definition sort_species :: "Genome list \<Rightarrow> Genome list" where
  "sort_species species = std_sort compareGenome 0 0 species"

text \<open>
  Lines 169 and 170:
  \<^verbatim>\<open>for (size_t j = 0; j < numElite[i]; j++) genomeList.push_back(speciesList[i][j]);\<close>
\<close>

function copy_elites :: "int \<Rightarrow> Genome list \<Rightarrow> nat \<Rightarrow> Genome list \<Rightarrow> error + Genome list" where
  "copy_elites numElite species j genomeList' =
     (if int j < numElite then
        (if j < length species
         then copy_elites numElite species (Suc j) (genomeList' @ [species ! j])
         else Inl OutOfBounds)
      else Inr genomeList')"
  by pat_completeness auto
termination
  by (relation "measure (\<lambda>(numElite, species, j, gl). nat (numElite - int j))") auto

declare copy_elites.simps [simp del]

text \<open>
  Lines 175 to 180, one pass of the \<^verbatim>\<open>while\<close> loop: the selection, the crossover and
  the mutation of the child. \<open>selection\<close> is a vector of two elements and the
  second parent is read at \<^verbatim>\<open>selection[2]\<close>. \<^verbatim>\<open>Genome::Mutate\<close> is not among the
  sources: it is the parameter \<open>Mutate\<close>, from a genome and a draw count to the
  mutated genome and a draw count. The parents are passed by reference, so the species
  takes back what \<^verbatim>\<open>Crossover\<close> leaves in them.
\<close>

definition make_child ::
  "arith \<Rightarrow> NEAT \<Rightarrow> (Genome \<Rightarrow> nat \<Rightarrow> Genome \<times> nat) \<Rightarrow> draws \<Rightarrow> nat \<Rightarrow> Genome list
   \<Rightarrow> real list \<Rightarrow> nat \<Rightarrow> error + (Genome list \<times> Genome \<times> nat)" where
  "make_child a neat Mutate d fuel species fitnesses r =
     (case Select d fuel fitnesses r of
        Inl e \<Rightarrow> Inl e
      | Inr (selection, r1) \<Rightarrow>
          (case vec_at selection 0 of
             Inl e \<Rightarrow> Inl e
           | Inr s0 \<Rightarrow>
               (case vec_at selection 2 of
                  Inl e \<Rightarrow> Inl e
                | Inr s2 \<Rightarrow>
                    (case vec_at species s0 of
                       Inl e \<Rightarrow> Inl e
                     | Inr gen1 \<Rightarrow>
                         (case vec_at species s2 of
                            Inl e \<Rightarrow> Inl e
                          | Inr gen2 \<Rightarrow>
                              (case Crossover a neat d fuel gen1 gen2 r1 of
                                 Inl e \<Rightarrow> Inl e
                               | Inr res \<Rightarrow>
                                   (case Mutate (child res) (draws_made res) of
                                      (mutated, r2) \<Rightarrow>
                                        Inr (species[s0 := gen1_after res,
                                                     s2 := gen2_after res],
                                             mutated, r2))))))))"

text \<open>
  Lines 173 to 181:
  \<^verbatim>\<open>while (genomeList.size() - currentSize < speciesSize[i])\<close>.
\<close>

function offspring ::
  "arith \<Rightarrow> NEAT \<Rightarrow> (Genome \<Rightarrow> nat \<Rightarrow> Genome \<times> nat) \<Rightarrow> draws \<Rightarrow> nat \<Rightarrow> nat \<Rightarrow> int
   \<Rightarrow> Genome list \<Rightarrow> real list \<Rightarrow> Genome list \<Rightarrow> nat
   \<Rightarrow> error + (Genome list \<times> Genome list \<times> nat)" where
  "offspring a neat Mutate d fuel currentSize quota species fitnesses genomeList' r =
     (if int (length genomeList' - currentSize) < quota then
        (case make_child a neat Mutate d fuel species fitnesses r of
           Inl e \<Rightarrow> Inl e
         | Inr (species1, mutated, r1) \<Rightarrow>
             offspring a neat Mutate d fuel currentSize quota species1 fitnesses
               (genomeList' @ [mutated]) r1)
      else Inr (species, genomeList', r))"
  by pat_completeness auto
termination
  by (relation "measure (\<lambda>(a, neat, M, d, fuel, currentSize, quota, species, fitnesses, gl, r).
                   nat quota + currentSize - length gl)") auto

declare offspring.simps [simp del]

text \<open>Lines 166 to 181, the body of the loop over the species.\<close>

definition reproduce_species ::
  "arith \<Rightarrow> NEAT \<Rightarrow> (Genome \<Rightarrow> nat \<Rightarrow> Genome \<times> nat) \<Rightarrow> draws \<Rightarrow> nat \<Rightarrow> int \<Rightarrow> int
   \<Rightarrow> Genome list \<Rightarrow> Genome list \<Rightarrow> nat
   \<Rightarrow> error + (Genome list \<times> Genome list \<times> nat)" where
  "reproduce_species a neat Mutate d fuel quota numElite species genomeList' r =
     (let currentSize = length genomeList';
          species1 = sort_species species
      in case copy_elites numElite species1 0 genomeList' of
           Inl e \<Rightarrow> Inl e
         | Inr genomeList1 \<Rightarrow>
             offspring a neat Mutate d fuel currentSize quota species1
               (map Fitness species1) genomeList1 r)"

fun build ::
  "arith \<Rightarrow> NEAT \<Rightarrow> (Genome \<Rightarrow> nat \<Rightarrow> Genome \<times> nat) \<Rightarrow> draws \<Rightarrow> nat \<Rightarrow> int list \<Rightarrow> int list
   \<Rightarrow> nat list \<Rightarrow> Genome list list \<Rightarrow> Genome list \<Rightarrow> nat
   \<Rightarrow> error + (Genome list list \<times> Genome list \<times> nat)" where
  "build a neat Mutate d fuel speciesSize numElite [] speciesList' genomeList' r =
     Inr (speciesList', genomeList', r)"
| "build a neat Mutate d fuel speciesSize numElite (i # rest) speciesList' genomeList' r =
     (case vec_at speciesList' i of
        Inl e \<Rightarrow> Inl e
      | Inr species \<Rightarrow>
          (case vec_at numElite i of
             Inl e \<Rightarrow> Inl e
           | Inr n \<Rightarrow>
               (case vec_at speciesSize i of
                  Inl e \<Rightarrow> Inl e
                | Inr quota \<Rightarrow>
                    (case reproduce_species a neat Mutate d fuel quota n species
                            genomeList' r of
                       Inl e \<Rightarrow> Inl e
                     | Inr (species1, genomeList1, r1) \<Rightarrow>
                         build a neat Mutate d fuel speciesSize numElite rest
                           (speciesList'[i := species1]) genomeList1 r1))))"

text \<open>
  \<^verbatim>\<open>NEAT::Reproduce()\<close>: the engine with its new \<open>genomeList\<close>, and the draw count.
\<close>

definition Reproduce ::
  "arith \<Rightarrow> NEAT \<Rightarrow> (Genome \<Rightarrow> nat \<Rightarrow> Genome \<times> nat) \<Rightarrow> draws \<Rightarrow> nat \<Rightarrow> nat
   \<Rightarrow> error + (NEAT \<times> nat)" where
  "Reproduce a neat Mutate d fuel r =
     (case speciesSizes a neat of
        Inl e \<Rightarrow> Inl e
      | Inr speciesSize \<Rightarrow>
          (case build a neat Mutate d fuel speciesSize
                  (map (elite_count a (elitismProp neat)) speciesSize)
                  [0..<numSpecies neat] (speciesList neat) [] r of
             Inl e \<Rightarrow> Inl e
           | Inr (speciesList', genomeList', r1) \<Rightarrow>
               Inr (neat\<lparr>speciesList := speciesList', genomeList := genomeList'\<rparr>, r1)))"

text \<open>
  What the elites of a species are to be, in the words of the specification: the top
  members by fitness, descending. This definition is not taken from the code; the code's
  is \<open>copy_elites\<close> after \<open>sort_species\<close>.
\<close>

definition top_by_fitness :: "nat \<Rightarrow> Genome list \<Rightarrow> Genome list" where
  "top_by_fitness n species = take n (sort_by compareGenome species)"

section \<open>Sample inputs\<close>

text \<open>
  Concrete genomes and engines, for the instances at which the theorems below are
  evaluated. \<open>gene n s t\<close> is an enabled connection from node \<open>s\<close> to node \<open>t\<close> of
  weight 1 with innovation number \<open>n\<close>. The instances are chosen so that every
  value computed is a small integer, a half or a quarter: the double operations give
  the exact results there, which is the arithmetic \<open>exact\<close>.
\<close>

definition exact :: arith where
  "exact = \<lparr>fl = (\<lambda>x. x), accu = sum_list\<rparr>"

definition gene :: "nat \<Rightarrow> nat \<Rightarrow> nat \<Rightarrow> ConnectionGene" where
  "gene n s t = \<lparr>source = s, target = t, Weight = 1, Enabled = True, InnovationID = n\<rparr>"

definition genome :: "ConnectionGene list \<Rightarrow> nat \<Rightarrow> real \<Rightarrow> Genome" where
  "genome genes nodes fitness =
     \<lparr>connectionGeneList = genes, nodeDepths = [], nextNodeID = nodes, Fitness = fitness\<rparr>"

definition engine :: "nat \<Rightarrow> bool \<Rightarrow> Genome list list \<Rightarrow> NEAT" where
  "engine popSize' acyclic' species =
     \<lparr>inputNodeCount = 2, outputNodeCount = 1, popSize = popSize', maxGen = 3,
      numSpecies = length species, bias = 1, weightMutationProb = 0,
      weightMutationSize = 0, biasMutationProb = 0, biasMutationSize = 0,
      nodeAdditionProb = 0, connAdditionProb = 0, disableProb = 1 / 4,
      elitismProp = 1 / 2, isAcyclic = acyclic', genomeList = [],
      speciesList = species\<rparr>"

section \<open>Properties of RankSelection\<close>

lemma prob_zero:
  assumes "2 \<le> sz" and "sz < 2 ^ 32" and "pos < sz"
  shows "prob sz pos = Inr 0"
proof -
  have "sz * (sz + 1) \<le> (2 ^ 32 - 1) * (2 ^ 32 :: nat)"
    using assms(2) by (intro mult_mono) auto
  then have b: "sz * (sz + 1) < (2 ^ 64 :: nat)" by simp
  then have den: "mul64 sz (add64 sz 1) = sz * (sz + 1)"
    using assms(2) by (simp add: mul64_def add64_def size_max_def)
  have "sz + size_max - pos mod size_max = (sz - pos) + size_max"
    using assms(2,3) by (simp add: size_max_def)
  then have "sub64 sz pos = (sz - pos) mod size_max"
    by (simp add: sub64_def)
  then have num: "mul64 (sub64 sz pos) 2 = (sz - pos) * 2"
    using assms(2,3) by (simp add: mul64_def size_max_def)
  have "(sz - pos) * 2 \<le> sz * 2" by simp
  also have "\<dots> < sz * (sz + 1)" using assms(1) by simp
  finally have q: "(sz - pos) * 2 div (sz * (sz + 1)) = 0" by simp
  have nz: "sz * (sz + 1) \<noteq> 0" using assms(1) by simp
  show ?thesis unfolding prob_def den num Let_def using q nz by simp
qed

lemma choose_first_spins:
  assumes "2 \<le> sz" and "sz < 2 ^ 32" and "\<forall>k. 0 \<le> d k"
  shows "choose_first d fuel sz sz pos r = Inl OutOfFuel"
proof (induction fuel arbitrary: pos r)
  case 0
  show ?case by simp
next
  case (Suc fuel)
  define pos1 where "pos1 = (if sz \<le> pos then 0 else pos)"
  have "pos1 < sz" using assms(1) by (simp add: pos1_def)
  then have p: "prob sz pos1 = Inr 0" using assms(1,2) by (rule prob_zero[rotated 2])
  have "\<not> d r < 0" using assms(3) by (simp add: not_less)
  then show ?case using p Suc.IH by (simp add: pos1_def[symmetric])
qed

text \<open>
  C3. For a fitness vector of length at least 2, \<open>Select\<close> should return two distinct
  indices after a bounded number of retries. The code computes the acceptance
  probability by integer division, which is 0 for every position once the vector has two
  elements or more, and \<^verbatim>\<open>randu\<close> never returns a negative number: the first loop accepts
  nothing. Whatever the draws and however many iterations are allowed, \<open>Select\<close> has not
  returned. The vector is shorter than \<open>2 ^ 32\<close>, so that \<open>size * (size + 1)\<close> does
  not wrap around.
\<close>

theorem Select_never_returns:
  assumes "2 \<le> length fitnesses" and "length fitnesses < 2 ^ 32" and "\<forall>k. 0 \<le> d k"
  shows "Select d fuel fitnesses r = Inl OutOfFuel"
  using choose_first_spins[OF assms] by (simp add: Select_def)

theorem Select_never_returns_witness:
  "2 \<le> length [1, 2 :: real] \<and> length [1, 2 :: real] < 2 ^ 32
   \<and> (\<forall>k. 0 \<le> (\<lambda>_. 1 / 2 :: real) k)
   \<and> Select (\<lambda>_. 1 / 2) 1000 [1, 2] 0 = Inl OutOfFuel"
  using Select_never_returns[of "[1, 2]" "\<lambda>_. 1 / 2" 1000 0] by simp

section \<open>Properties of the allotment\<close>

text \<open>Without rounding, the accumulated sum is the sum.\<close>

lemma fsum_from: "foldl (\<lambda>s x. s + x) s xs = s + sum_list (xs :: real list)"
  by (induction xs arbitrary: s) simp_all

lemma fsum_exact: "fsum exact xs = sum_list xs"
  by (simp add: fsum_def exact_def fsum_from)

lemma collect_meanFitness:
  "collect (map (meanFitness a) sl) =
     (if [] \<in> set sl then Inl DivisionByZero
      else Inr (map (\<lambda>species. fl a (fsum a (map Fitness species) / real (length species)))
                  sl))"
proof (induction sl)
  case Nil
  show ?case by simp
next
  case (Cons species sl)
  show ?case
  proof (cases "species = []")
    case True
    then show ?thesis by (simp add: meanFitness_def fdiv_def)
  next
    case False
    then have "meanFitness a species
                 = Inr (fl a (fsum a (map Fitness species) / real (length species)))"
      by (simp add: meanFitness_def fdiv_def)
    with False Cons.IH show ?thesis by auto
  qed
qed

lemma species_by_index:
  assumes "n = length sl"
  shows "map (\<lambda>i. case vec_at sl i of Inl e \<Rightarrow> Inl e | Inr species \<Rightarrow> meanFitness a species)
           [0..<n] = map (meanFitness a) sl"
proof -
  have "map (\<lambda>i. case vec_at sl i of Inl e \<Rightarrow> Inl e | Inr species \<Rightarrow> meanFitness a species)
          [0..<length sl] = map (\<lambda>i. meanFitness a (sl ! i)) [0..<length sl]"
    by (rule map_cong) (simp_all add: vec_at_def)
  also have "\<dots> = map (meanFitness a) (map (\<lambda>i. sl ! i) [0..<length sl])"
    by (simp add: comp_def)
  also have "\<dots> = map (meanFitness a) sl"
    by (simp only: map_nth)
  finally show ?thesis using assms by simp
qed

text \<open>
  C2. A species without members should count as mean fitness 0, with no division by
  zero. The code divides the sum by the size of the species with no test of the size.
  As amended: when every species has a member, each mean is the sum of the fitnesses
  over the number of members, in double arithmetic; when a species is empty, its mean
  is the quotient of 0 by 0 and \<open>meanFitnesses\<close> has no finite result. The species
  list holds \<open>numSpecies\<close> species, as \<^verbatim>\<open>Train\<close> sets it up.
\<close>

theorem meanFitnesses_unguarded:
  assumes "numSpecies neat = length (speciesList neat)"
  shows "meanFitnesses a neat =
           (if [] \<in> set (speciesList neat) then Inl DivisionByZero
            else Inr (map (\<lambda>species. fl a (fsum a (map Fitness species)
                                             / real (length species)))
                        (speciesList neat)))"
  unfolding meanFitnesses_def species_by_index[OF assms] by (rule collect_meanFitness)

theorem meanFitnesses_unguarded_witness:
  "numSpecies (engine 3 False [[genome [] 3 1, genome [] 3 3], [genome [] 3 2]])
     = length (speciesList (engine 3 False [[genome [] 3 1, genome [] 3 3], [genome [] 3 2]]))
   \<and> meanFitnesses exact (engine 3 False [[genome [] 3 1, genome [] 3 3], [genome [] 3 2]])
       = Inr [2, 2]"
  using meanFitnesses_unguarded
          [of "engine 3 False [[genome [] 3 1, genome [] 3 3], [genome [] 3 2]]" exact]
  by (simp add: engine_def genome_def exact_def fsum_def)

theorem empty_species_divides_by_zero:
  "meanFitnesses exact (engine 3 False [[genome [] 3 1], []]) = Inl DivisionByZero
   \<and> Reproduce exact (engine 3 False [[genome [] 3 1], []]) (\<lambda>g r. (g, r)) (\<lambda>_. 1 / 2)
         0 0 = Inl DivisionByZero"
  by (simp add: Reproduce_def speciesSizes_def meanFitnesses_def engine_def genome_def
        vec_at_def meanFitness_def fdiv_def fsum_def exact_def upt_conv_Cons)

lemma collect_allotted:
  assumes "t \<noteq> 0"
  shows "collect (map (allotted a p t) ms)
           = Inr (map (\<lambda>m. std_round (fl a (fl a (m / t) * real p))) ms)"
  using assms by (induction ms) (simp_all add: allotted_def fdiv_def)

text \<open>
  C7. A total mean fitness of zero should give every species the same allotment. The
  code divides each mean by the total with no test of the total. As amended: when the
  total that \<^verbatim>\<open>arma::accu\<close> returns is not zero, the allotment of a species is
  \<^verbatim>\<open>std::round\<close> of the double that its mean divided by the total and multiplied
  by \<open>popSize\<close> comes to, each of the two operations rounded to a double; when the
  total is zero and there is a species, the ratio is a quotient by zero and the
  allotment has no finite result.
\<close>

theorem allot_unguarded:
  "allot a p means =
     (if means = [] then Inr []
      else if accu a means = 0 then Inl DivisionByZero
      else Inr (map (\<lambda>m. std_round (fl a (fl a (m / accu a means) * real p))) means))"
proof (cases "accu a means = 0")
  case True
  show ?thesis
  proof (cases means)
    case Nil
    then show ?thesis by (simp add: allot_def)
  next
    case (Cons m ms)
    then show ?thesis using True by (simp add: allot_def allotted_def fdiv_def)
  qed
next
  case False
  show ?thesis
  proof (cases means)
    case Nil
    then show ?thesis by (simp add: allot_def)
  next
    case (Cons m ms)
    have "allot a p means
            = Inr (map (\<lambda>m. std_round (fl a (fl a (m / accu a means) * real p))) means)"
      unfolding allot_def by (rule collect_allotted[OF False])
    then show ?thesis using False Cons by simp
  qed
qed

theorem allot_unguarded_witness:
  "allot exact 4 [1, 3] = Inr [1, 3]"
  using allot_unguarded[of exact 4 "[1, 3]"] by (simp add: std_round_def exact_def)

theorem zero_total_divides_by_zero:
  "meanFitnesses exact (engine 4 False [[genome [] 3 0], [genome [] 3 0]]) = Inr [0, 0]
   \<and> allot exact 4 [0, 0] = Inl DivisionByZero
   \<and> Reproduce exact (engine 4 False [[genome [] 3 0], [genome [] 3 0]]) (\<lambda>g r. (g, r))
         (\<lambda>_. 1 / 2) 0 0 = Inl DivisionByZero"
  by (simp add: Reproduce_def speciesSizes_def meanFitnesses_def engine_def genome_def
        vec_at_def meanFitness_def fdiv_def fsum_def exact_def upt_conv_Cons allot_def
        allotted_def)

text \<open>
  The rounding decides allotments. With 45 genomes to allot and means 7 and 3, the exact
  quotients and products would give 32 and 14. An arithmetic that rounds 7/10, 3/10 and
  their products with 45 to the nearest doubles, as the machine does, gives 31 and 14:
  the first product comes to the double just below 31.5.
\<close>

lemma allot_in_doubles:
  assumes "accu a [7, 3] = 10"
    and "fl a (7 / 10) = 6305039478318694 / 2 ^ 53"
    and "fl a (6305039478318694 / 2 ^ 53 * 45) = 63 / 2 - 1 / 2 ^ 48"
    and "fl a (3 / 10) = 5404319552844595 / 2 ^ 54"
    and "fl a (5404319552844595 / 2 ^ 54 * 45) = 27 / 2"
  shows "allot a 45 [7, 3] = Inr [31, 14]"
proof -
  have v: "fl a (fl a (7 / 10) * 45) = 63 / 2 - 1 / 2 ^ 48"
    unfolding assms(2) by (rule assms(3))
  have first: "allotted a 45 10 7 = Inr 31"
    by (simp add: allotted_def fdiv_def v std_round_def)
  have w: "fl a (fl a (3 / 10) * 45) = 27 / 2"
    unfolding assms(4) by (rule assms(5))
  have second: "allotted a 45 10 3 = Inr 14"
    by (simp add: allotted_def fdiv_def w std_round_def)
  show ?thesis
    unfolding allot_def assms(1) using first second by simp
qed

lemma allot_without_rounding: "allot exact 45 [7, 3] = Inr [32, 14]"
  by (simp add: allot_def allotted_def fdiv_def exact_def std_round_def)

lemma remove_excess_fails:
  "delta < 0 \<Longrightarrow> \<exists>e. remove_excess delta i speciesSize = Inl e"
proof (induction delta i speciesSize rule: remove_excess.induct)
  case (1 delta i speciesSize)
  show ?case
  proof (cases "i < length speciesSize \<and> delta \<noteq> - (2 ^ 31)")
    case True
    then have "\<exists>e. remove_excess (delta - 1) (Suc i)
                      (speciesSize[i := speciesSize ! i - 1]) = Inl e"
      using "1.IH" "1.prems" by simp
    then show ?thesis
      using True "1.prems" by (subst remove_excess.simps) simp
  next
    case False
    then show ?thesis
      using "1.prems" by (subst remove_excess.simps) auto
  qed
qed

lemma sum_list_bump:
  "i < length xs \<Longrightarrow> sum_list (xs[i := xs ! i + c]) = sum_list xs + (c :: int)"
  by (induction xs arbitrary: i) (auto simp: nth_Cons split: nat.splits)

lemma fill_deficit_sum:
  "0 \<le> delta \<Longrightarrow> i + nat delta \<le> length speciesSize \<Longrightarrow>
   \<exists>s. fill_deficit delta i speciesSize = Inr s \<and> sum_list s = sum_list speciesSize + delta"
proof (induction delta i speciesSize rule: fill_deficit.induct)
  case (1 delta i speciesSize)
  show ?case
  proof (cases "0 < delta")
    case True
    then have i: "i < length speciesSize" using "1.prems" by simp
    have "\<exists>s. fill_deficit (delta - 1) (Suc i) (speciesSize[i := speciesSize ! i + 1]) = Inr s
            \<and> sum_list s = sum_list (speciesSize[i := speciesSize ! i + 1]) + (delta - 1)"
      using True i "1.prems" by (intro "1.IH") simp_all
    moreover have "sum_list (speciesSize[i := speciesSize ! i + 1]) = sum_list speciesSize + 1"
      using i by (rule sum_list_bump)
    ultimately show ?thesis
      using True i by (subst fill_deficit.simps) auto
  next
    case False
    then show ?thesis
      using "1.prems" by (subst fill_deficit.simps) simp
  qed
qed

text \<open>
  The deficit is filled as the comment of line 131 says: when the allotments sum to at
  most \<open>popSize\<close> and the deficit is no more than the number of species, the sizes sum
  to \<open>popSize\<close>.
\<close>

lemma reconcile_deficit:
  assumes "sum_list speciesSize \<le> int p" and "int p - sum_list speciesSize \<le> int (length speciesSize)"
    and "int p - sum_list speciesSize < 2 ^ 31"
  shows "\<exists>s. reconcile p speciesSize = Inr s \<and> sum_list s = int p"
proof (cases "sum_list speciesSize = int p")
  case True
  then show ?thesis by (simp add: reconcile_def to_int_def)
next
  case False
  define delta where "delta = int p - sum_list speciesSize"
  have pos: "0 < delta" using False assms(1) by (simp add: delta_def)
  have "\<exists>s. fill_deficit delta 0 speciesSize = Inr s \<and> sum_list s = sum_list speciesSize + delta"
    using pos assms(2) by (intro fill_deficit_sum) (simp_all add: delta_def)
  then show ?thesis
    using pos assms(3) by (auto simp: reconcile_def to_int_def delta_def)
qed

text \<open>
  C1. After the reconciliation the sizes of the species should sum to \<open>popSize\<close>. When
  the rounded allotments sum to more than \<open>popSize\<close>, the loop that removes the excess
  decrements \<open>delta\<close>, which is negative already: its condition never becomes false,
  and it runs past the end of \<open>speciesSize\<close>. No sizes come out of the
  reconciliation then, whatever the allotments are.
\<close>

theorem reconcile_surplus_fails:
  assumes "int p < sum_list speciesSize"
  shows "\<exists>e. reconcile p speciesSize = Inl e"
proof (cases "to_int (int p - sum_list speciesSize)")
  case (Inl e)
  then show ?thesis by (simp add: reconcile_def)
next
  case (Inr delta)
  then have "delta = int p - sum_list speciesSize"
    by (simp add: to_int_def split: if_splits)
  then have neg: "delta < 0" using assms by simp
  then show ?thesis
    using Inr remove_excess_fails[OF neg, of 0 speciesSize] by (simp add: reconcile_def)
qed

theorem reconcile_surplus_fails_witness:
  "int 3 < sum_list [2, 2] \<and> allot exact 3 [1, 1] = Inr [2, 2]
   \<and> (\<exists>e. reconcile 3 [2, 2] = Inl e)"
  using reconcile_surplus_fails[of 3 "[2, 2]"]
  by (simp add: allot_def allotted_def fdiv_def std_round_def exact_def)

text \<open>
  At the least input with a surplus, two species of equal mean fitness and three
  genomes to allot, \<^verbatim>\<open>Reproduce\<close> as a whole has no result.
\<close>

lemma surplus_at_two_species:
  "speciesSizes exact (engine 3 False [[genome [] 3 1], [genome [] 3 1]]) = Inl OutOfBounds"
  by (simp add: speciesSizes_def meanFitnesses_def engine_def genome_def vec_at_def
        meanFitness_def fdiv_def fsum_def exact_def allot_def allotted_def std_round_def
        reconcile_def to_int_def remove_excess.simps upt_conv_Cons)


lemma Reproduce_surplus:
  "Reproduce exact (engine 3 False [[genome [] 3 1], [genome [] 3 1]]) Mutate d fuel r
     = Inl OutOfBounds"
  by (simp add: Reproduce_def surplus_at_two_species)

text \<open>
  Where no allotment is off and no child is needed, \<^verbatim>\<open>Reproduce\<close> returns: two
  species of one genome each and a population of two keep both genomes as elites.
\<close>

lemma Reproduce_of_elites:
  "Reproduce exact (engine 2 False [[genome [] 3 1], [genome [] 3 1]]) Mutate d fuel r
     = Inr (engine 2 False [[genome [] 3 1], [genome [] 3 1]]
              \<lparr>genomeList := [genome [] 3 1, genome [] 3 1]\<rparr>, r)"
  by (simp add: Reproduce_def speciesSizes_def meanFitnesses_def engine_def genome_def
        vec_at_def meanFitness_def fdiv_def fsum_def exact_def allot_def allotted_def
        std_round_def
        reconcile_def to_int_def elite_count_def reproduce_species_def sort_species_def
        std_sort_def copy_elites.simps offspring.simps upt_conv_Cons Let_def)

section \<open>Properties of the new population\<close>

lemma sort_species_unchanged: "sort_species species = species"
  by (simp add: sort_species_def std_sort_def)

lemma copy_elites_prefix:
  "int j \<le> n \<Longrightarrow> n \<le> int (length species) \<Longrightarrow>
   copy_elites n species j gl = Inr (gl @ drop j (take (nat n) species))"
proof (induction n species j gl rule: copy_elites.induct)
  case (1 n species j gl)
  show ?case
  proof (cases "int j < n")
    case True
    then have j: "j < length species" using "1.prems" by simp
    have jn: "j < length (take (nat n) species)" using True j "1.prems" by simp
    have "copy_elites n species (Suc j) (gl @ [species ! j])
            = Inr ((gl @ [species ! j]) @ drop (Suc j) (take (nat n) species))"
      using True j "1.prems" by (intro "1.IH") simp_all
    moreover have "drop j (take (nat n) species)
                     = species ! j # drop (Suc j) (take (nat n) species)"
      using jn True by (simp add: Cons_nth_drop_Suc[symmetric])
    ultimately show ?thesis
      using True j by (subst copy_elites.simps) simp
  next
    case False
    then have "nat n \<le> j" using "1.prems" by simp
    then show ?thesis
      using False by (subst copy_elites.simps) simp
  qed
qed

text \<open>
  C4. The elites of a species should be its members of highest fitness. The call of
  \<^verbatim>\<open>std::sort\<close> that is to put them first is given \<^verbatim>\<open>begin()\<close> for both ends of
  its range, so it orders nothing: the genomes copied are the first \<open>numElite\<close> of the
  species in the order in which speciation stored them.
\<close>

theorem elites_are_first_stored:
  assumes "0 \<le> numElite" and "numElite \<le> int (length species)"
  shows "copy_elites numElite (sort_species species) 0 gl
           = Inr (gl @ take (nat numElite) species)"
  using copy_elites_prefix[of 0 numElite species gl] assms
  by (simp add: sort_species_unchanged)

theorem elites_are_first_stored_witness:
  "0 \<le> elite_count exact (1 / 2) 2
   \<and> elite_count exact (1 / 2) 2 \<le> int (length [genome [] 3 1, genome [] 3 2])
   \<and> copy_elites (elite_count exact (1 / 2) 2)
         (sort_species [genome [] 3 1, genome [] 3 2]) 0 [] = Inr [genome [] 3 1]
   \<and> top_by_fitness 1 [genome [] 3 1, genome [] 3 2] = [genome [] 3 2]"
  using elites_are_first_stored
          [of "elite_count exact (1 / 2) 2" "[genome [] 3 1, genome [] 3 2]" "[]"]
  by (simp add: elite_count_def std_round_def exact_def top_by_fitness_def compareGenome_def
        genome_def)

lemma Select_two_elements:
  "Select d fuel fitnesses r = Inr (selection, r1) \<Longrightarrow> length selection = 2"
  by (auto simp: Select_def Let_def split: sum.splits prod.splits)

text \<open>
  C5. A slot that is not an elite's should be filled by the mutated crossover of the
  genomes at the two indices that \<open>Select\<close> returned. The code takes the first parent
  at \<^verbatim>\<open>selection[0]\<close> and the second at \<^verbatim>\<open>selection[2]\<close>, which is past the end of the
  two-element vector: whatever the species, the draws and the mutation, a pass of the
  loop produces no child.
\<close>

theorem make_child_fails:
  "\<exists>e. make_child a neat Mutate d fuel species fitnesses r = Inl e"
proof (cases "Select d fuel fitnesses r")
  case (Inl e)
  then show ?thesis by (simp add: make_child_def)
next
  case (Inr res)
  obtain selection r1 where res: "res = (selection, r1)" by (cases res)
  have "length selection = 2"
    using Inr res by (intro Select_two_elements[of d fuel fitnesses r selection r1]) simp
  then have "vec_at selection 2 = Inl OutOfBounds" by (simp add: vec_at_def)
  then show ?thesis
    using Inr res by (simp add: make_child_def split: sum.splits)
qed

theorem make_child_fails_witness:
  "Select (\<lambda>_. 1 / 2) (Suc (Suc 0)) [1] 0 = Inr ([0, 0], 2)
   \<and> (\<exists>e. make_child exact (engine 2 False [[genome [] 3 1]]) (\<lambda>g r. (g, r))
             (\<lambda>_. 1 / 2) (Suc (Suc 0)) [genome [] 3 1] [1] 0 = Inl e)"
proof -
  have a: "add64 (Suc 0) 1 = 2" by (simp add: add64_def size_max_def)
  have m: "mul64 (Suc 0) 2 = 2" by (simp add: mul64_def size_max_def)
  have s: "sub64 (Suc 0) 0 = Suc 0" by (simp add: sub64_def size_max_def)
  have "prob (Suc 0) 0 = Inr 1"
    unfolding prob_def a m s Let_def by simp
  then have "Select (\<lambda>_. 1 / 2) (Suc (Suc 0)) [1] 0 = Inr ([0, 0], 2)"
    by (simp add: Select_def)
  then show ?thesis
    using make_child_fails[of exact "engine 2 False [[genome [] 3 1]]" "\<lambda>g r. (g, r)"
            "\<lambda>_. 1 / 2" "Suc (Suc 0)" "[genome [] 3 1]" "[1]" 0]
    by (rule conjI)
qed

section \<open>Properties of the constructor\<close>

text \<open>
  C8. A zero count of input or output nodes, a zero population size or more species
  than genomes should make the construction fail. The constructor checks nothing. As
  amended: the construction succeeds for every value of its parameters, and each of
  the fifteen members holds the parameter of its name, as it was given.
\<close>

theorem NEAT_new_succeeds:
  "\<exists>neat. NEAT_new i o' p m s b wp ws bp bs np cp dp ep ac = Inr neat
          \<and> inputNodeCount neat = i \<and> outputNodeCount neat = o' \<and> popSize neat = p
          \<and> maxGen neat = m \<and> numSpecies neat = s \<and> bias neat = b
          \<and> weightMutationProb neat = wp \<and> weightMutationSize neat = ws
          \<and> biasMutationProb neat = bp \<and> biasMutationSize neat = bs
          \<and> nodeAdditionProb neat = np \<and> connAdditionProb neat = cp
          \<and> disableProb neat = dp \<and> elitismProp neat = ep \<and> isAcyclic neat = ac"
  by (simp add: NEAT_new_def)

theorem NEAT_new_succeeds_witness:
  "\<exists>neat. NEAT_new 2 1 10 3 2 1 (1 / 2) (1 / 4) (1 / 8) 2 (3 / 4) (3 / 8) (5 / 8) (7 / 8)
           True = Inr neat
          \<and> inputNodeCount neat = 2 \<and> outputNodeCount neat = 1 \<and> popSize neat = 10
          \<and> maxGen neat = 3 \<and> numSpecies neat = 2 \<and> bias neat = 1
          \<and> weightMutationProb neat = 1 / 2 \<and> weightMutationSize neat = 1 / 4
          \<and> biasMutationProb neat = 1 / 8 \<and> biasMutationSize neat = 2
          \<and> nodeAdditionProb neat = 3 / 4 \<and> connAdditionProb neat = 3 / 8
          \<and> disableProb neat = 5 / 8 \<and> elitismProp neat = 7 / 8 \<and> isAcyclic neat = True"
  using NEAT_new_succeeds
          [of 2 1 10 3 2 1 "1 / 2" "1 / 4" "1 / 8" 2 "3 / 4" "3 / 8" "5 / 8" "7 / 8" True] .

theorem construction_unchecked:
  "\<not> isl (NEAT_new 0 0 0 3 5 1 0 0 0 0 0 0 (1 / 4) (1 / 2) False)"
  by (simp add: NEAT_new_def)

section \<open>Properties of Crossover\<close>

lemma inherit_gene_keeps:
  assumes "inherit_gene d dp c lc r = (c', r')"
  shows "source c' = source c" and "target c' = target c"
    and "InnovationID c' = InnovationID c"
  using assms by (auto simp: inherit_gene_def Let_def split: if_splits prod.splits)

lemma map_update_same: "j < length xs \<Longrightarrow> f c = f (xs ! j) \<Longrightarrow> map f (xs[j := c]) = map f xs"
  by (simp add: map_update list_update_same_conv)

lemma match_gene_keeps:
  "match_gene d dp lc k j new r = (new', k', r') \<Longrightarrow>
   map source new' = map source new \<and> map target new' = map target new
   \<and> map InnovationID new' = map InnovationID new"
proof (induction d dp lc k j new r rule: match_gene.induct)
  case (1 d dp lc k j new r)
  show ?case
  proof (cases "j < length new")
    case False
    then show ?thesis using "1.prems" by (simp add: match_gene.simps)
  next
    case True
    show ?thesis
    proof (cases "InnovationID lc = InnovationID (new ! j)")
      case False
      then show ?thesis
        using True "1.prems" "1.IH" by (simp add: match_gene.simps[of d dp lc k j])
    next
      case same: True
      obtain c r1 where c: "inherit_gene d dp (new ! j) lc r = (c, r1)"
        by (cases "inherit_gene d dp (new ! j) lc r")
      then have "new' = new[j := c]"
        using True same "1.prems" by (auto simp: match_gene.simps[of d dp lc k j])
      then show ?thesis
        using True inherit_gene_keeps[OF c] by (simp add: map_update_same)
    qed
  qed
qed

lemma match_genes_keeps:
  "match_genes d dp ls k new r = (new', r') \<Longrightarrow>
   map source new' = map source new \<and> map target new' = map target new
   \<and> map InnovationID new' = map InnovationID new"
proof (induction ls arbitrary: k new r)
  case Nil
  then show ?case by simp
next
  case (Cons lc rest)
  obtain new1 k1 r1 where m: "match_gene d dp lc k k new r = (new1, k1, r1)"
    by (cases "match_gene d dp lc k k new r")
  then have "match_genes d dp rest k1 new1 r1 = (new', r')"
    using Cons.prems by simp
  then show ?case
    using Cons.IH match_gene_keeps[OF m] by metis
qed

lemma choose_base_parent:
  "fst (choose_base a d gen1 gen2 r) = gen1 \<or> fst (choose_base a d gen1 gen2 r) = gen2"
  by (simp add: choose_base_def)

lemma cross_base_genes:
  "map source (connectionGeneList (child (cross_base a neat d gen1 gen2 r)))
     = map source (connectionGeneList (fst (choose_base a d gen1 gen2 r)))
   \<and> map target (connectionGeneList (child (cross_base a neat d gen1 gen2 r)))
     = map target (connectionGeneList (fst (choose_base a d gen1 gen2 r)))
   \<and> map InnovationID (connectionGeneList (child (cross_base a neat d gen1 gen2 r)))
     = map InnovationID (connectionGeneList (fst (choose_base a d gen1 gen2 r)))
   \<and> getNodeCount (child (cross_base a neat d gen1 gen2 r))
     = getNodeCount (fst (choose_base a d gen1 gen2 r))"
proof -
  obtain base lessFit r1 where b: "choose_base a d gen1 gen2 r = (base, lessFit, r1)"
    by (cases "choose_base a d gen1 gen2 r")
  obtain new r2 where m:
    "match_genes d (disableProb neat) (connectionGeneList lessFit) 0
       (connectionGeneList base) r1 = (new, r2)"
    by (cases "match_genes d (disableProb neat) (connectionGeneList lessFit) 0
                 (connectionGeneList base) r1")
  show ?thesis
    using match_genes_keeps[OF m]
    by (simp add: cross_base_def b m Genome_with_depths_def Genome_of_genes_def
          getNodeCount_def)
qed

lemma merge_common_subset:
  "merge_common d fuel maxL minL minSize i j new r = Inr (i', new', r') \<Longrightarrow>
   set new' \<subseteq> set new \<union> set maxL \<union> set minL"
proof (induction d fuel maxL minL minSize i j new r rule: merge_common.induct)
  case (1 d maxL minL minSize i j new r)
  then show ?case by (auto split: if_splits)
next
  case (2 d fuel maxL minL minSize i j new r)
  from "2.prems" show ?case
    by (simp split: if_splits) (use "2.IH" in \<open>auto dest: nth_mem\<close>)
qed

lemma merge_rest_subset:
  "merge_rest d fuel maxL maxSize i new r = Inr (new', r') \<Longrightarrow>
   set new' \<subseteq> set new \<union> set maxL"
proof (induction d fuel maxL maxSize i new r rule: merge_rest.induct)
  case (1 d maxL maxSize i new r)
  then show ?case by (auto split: if_splits)
next
  case (2 d fuel maxL maxSize i new r)
  from "2.prems" show ?case
    by (simp split: if_splits) (use "2.IH" in \<open>auto dest: nth_mem\<close>)
qed

lemma cross_merge_genes:
  assumes "cross_merge d fuel gen1 gen2 r = Inr res"
  shows "set (connectionGeneList (child res))
           \<subseteq> set (connectionGeneList gen1) \<union> set (connectionGeneList gen2)"
    and "getNodeCount (child res) = max (getNodeCount gen1) (getNodeCount gen2)"
proof -
  define maxG where "maxG = (if length (connectionGeneList gen1) > length (connectionGeneList gen2)
                             then gen1 else gen2)"
  define minG where "minG = (if length (connectionGeneList gen1) < length (connectionGeneList gen2)
                             then gen1 else gen2)"
  define minSize where "minSize = (if length (connectionGeneList gen1) < length (connectionGeneList gen2)
                             then length (connectionGeneList gen1) else length (connectionGeneList gen2))"
  define maxSize where "maxSize = (if length (connectionGeneList gen1) > length (connectionGeneList gen2)
                             then length (connectionGeneList gen1) else length (connectionGeneList gen2))"
  from assms obtain i new1 r1 new2 r2 where
    c: "merge_common d fuel (connectionGeneList maxG) (connectionGeneList minG) minSize 0 0 [] r
          = Inr (i, new1, r1)"
    and m: "merge_rest d fuel (connectionGeneList maxG) maxSize i new1 r1 = Inr (new2, r2)"
    and res: "child res = Genome_of_genes new2
                (if getNodeCount gen1 > getNodeCount gen2 then getNodeCount gen1
                 else getNodeCount gen2)"
    unfolding cross_merge_def Let_def maxG_def[symmetric] minG_def[symmetric]
      minSize_def[symmetric] maxSize_def[symmetric]
    by (auto split: sum.splits prod.splits)
  have "set new2 \<subseteq> set (connectionGeneList maxG) \<union> set (connectionGeneList minG)"
    using merge_common_subset[OF c] merge_rest_subset[OF m] by auto
  moreover have "set (connectionGeneList maxG) \<union> set (connectionGeneList minG)
                   \<subseteq> set (connectionGeneList gen1) \<union> set (connectionGeneList gen2)"
    by (auto simp: maxG_def minG_def)
  ultimately have "set new2 \<subseteq> set (connectionGeneList gen1) \<union> set (connectionGeneList gen2)"
    by blast
  then show "set (connectionGeneList (child res))
           \<subseteq> set (connectionGeneList gen1) \<union> set (connectionGeneList gen2)"
    by (simp add: res Genome_of_genes_def)
  show "getNodeCount (child res) = max (getNodeCount gen1) (getNodeCount gen2)"
    by (simp add: res Genome_of_genes_def getNodeCount_def max_def)
qed

lemma refs_ok_maps:
  "refs_ok g \<longleftrightarrow>
     (\<forall>s\<in>set (map source (connectionGeneList g)). s < getNodeCount g)
     \<and> (\<forall>t\<in>set (map target (connectionGeneList g)). t < getNodeCount g)"
  by (auto simp: refs_ok_def)

lemma cross_base_refs:
  assumes "refs_ok gen1" and "refs_ok gen2"
  shows "refs_ok (child (cross_base a neat d gen1 gen2 r))"
proof -
  have "refs_ok (fst (choose_base a d gen1 gen2 r))"
    using assms choose_base_parent[of a d gen1 gen2 r] by auto
  then show ?thesis
    unfolding refs_ok_maps using cross_base_genes[of a neat d gen1 gen2 r] by simp
qed

lemma cross_merge_refs:
  assumes "cross_merge d fuel gen1 gen2 r = Inr res" and "refs_ok gen1" and "refs_ok gen2"
  shows "refs_ok (child res)"
proof -
  have n: "getNodeCount gen1 \<le> getNodeCount (child res)"
          "getNodeCount gen2 \<le> getNodeCount (child res)"
    using cross_merge_genes(2)[OF assms(1)] by simp_all
  show ?thesis
    unfolding refs_ok_def
  proof
    fix c assume "c \<in> set (connectionGeneList (child res))"
    then have "c \<in> set (connectionGeneList gen1) \<or> c \<in> set (connectionGeneList gen2)"
      using cross_merge_genes(1)[OF assms(1)] by auto
    then show "source c < getNodeCount (child res) \<and> target c < getNodeCount (child res)"
      using assms(2,3) n by (auto simp: refs_ok_def)
  qed
qed

lemma choose_base_fst:
  "fst (choose_base a d gen1 gen2 r) =
     (if equalFitness a gen1 gen2 then (if d r < 1 / 2 then gen1 else gen2)
      else if Fitness gen1 > Fitness gen2 then gen1 else gen2)"
  by (simp add: choose_base_def)

text \<open>
  C6. The child's node count should be the larger of the parents' node counts in every
  branch. The gene merge takes the larger count. The other branch takes the count of
  the parent whose genes it copies, whatever the count of the other parent. As amended:
  when the fitnesses are not equal, \<^verbatim>\<open>Crossover\<close> returns a child whose node count
  is that of \<open>gen1\<close> if \<open>gen1\<close> is strictly fitter and that of \<open>gen2\<close> if not;
  when they are equal and the engine is acyclic, it returns a child whose node count
  is that of \<open>gen1\<close> on a draw below one half and that of \<open>gen2\<close> otherwise;
  when they are equal and the engine is not acyclic, a child that the gene merge
  returns has the larger of the two node counts. In all three cases, when the genes of
  each parent join nodes of that parent, the genes of the child join nodes of the
  child. What the gene merge does when it reads past the end of a parent's list is
  left out here.
\<close>

theorem Crossover_node_count:
  assumes "refs_ok gen1" and "refs_ok gen2"
  shows "(\<not> equalFitness a gen1 gen2 \<longrightarrow>
            (\<exists>res. Crossover a neat d fuel gen1 gen2 r = Inr res
                   \<and> getNodeCount (child res)
                       = (if Fitness gen1 > Fitness gen2 then getNodeCount gen1
                          else getNodeCount gen2)
                   \<and> refs_ok (child res)))
         \<and> (equalFitness a gen1 gen2 \<and> isAcyclic neat \<longrightarrow>
            (\<exists>res. Crossover a neat d fuel gen1 gen2 r = Inr res
                   \<and> getNodeCount (child res)
                       = (if d r < 1 / 2 then getNodeCount gen1 else getNodeCount gen2)
                   \<and> refs_ok (child res)))
         \<and> (equalFitness a gen1 gen2 \<and> \<not> isAcyclic neat \<longrightarrow>
            (\<forall>res. Crossover a neat d fuel gen1 gen2 r = Inr res \<longrightarrow>
                   getNodeCount (child res) = max (getNodeCount gen1) (getNodeCount gen2)
                   \<and> refs_ok (child res)))"
proof (intro conjI impI allI)
  assume ne: "\<not> equalFitness a gen1 gen2"
  let ?res = "cross_base a neat d gen1 gen2 r"
  have "Crossover a neat d fuel gen1 gen2 r = Inr ?res"
    using ne by (simp add: Crossover_def)
  moreover have "getNodeCount (child ?res)
                   = (if Fitness gen1 > Fitness gen2 then getNodeCount gen1
                      else getNodeCount gen2)"
    using cross_base_genes[of a neat d gen1 gen2 r] ne by (simp add: choose_base_fst)
  moreover have "refs_ok (child ?res)"
    using assms by (rule cross_base_refs)
  ultimately show "\<exists>res. Crossover a neat d fuel gen1 gen2 r = Inr res
                   \<and> getNodeCount (child res)
                       = (if Fitness gen1 > Fitness gen2 then getNodeCount gen1
                          else getNodeCount gen2)
                   \<and> refs_ok (child res)"
    by blast
next
  assume tie: "equalFitness a gen1 gen2 \<and> isAcyclic neat"
  let ?res = "cross_base a neat d gen1 gen2 r"
  have "Crossover a neat d fuel gen1 gen2 r = Inr ?res"
    using tie by (simp add: Crossover_def)
  moreover have "getNodeCount (child ?res)
                   = (if d r < 1 / 2 then getNodeCount gen1 else getNodeCount gen2)"
    using cross_base_genes[of a neat d gen1 gen2 r] tie by (simp add: choose_base_fst)
  moreover have "refs_ok (child ?res)"
    using assms by (rule cross_base_refs)
  ultimately show "\<exists>res. Crossover a neat d fuel gen1 gen2 r = Inr res
                   \<and> getNodeCount (child res)
                       = (if d r < 1 / 2 then getNodeCount gen1 else getNodeCount gen2)
                   \<and> refs_ok (child res)"
    by blast
next
  fix res
  assume tie: "equalFitness a gen1 gen2 \<and> \<not> isAcyclic neat"
    and run: "Crossover a neat d fuel gen1 gen2 r = Inr res"
  then have m: "cross_merge d fuel gen1 gen2 r = Inr res"
    by (simp add: Crossover_def)
  show "getNodeCount (child res) = max (getNodeCount gen1) (getNodeCount gen2)"
    using m by (rule cross_merge_genes(2))
  show "refs_ok (child res)"
    using m assms by (rule cross_merge_refs)
qed

theorem Crossover_node_count_witness:
  "refs_ok (genome [gene 0 0 2] 3 2) \<and> refs_ok (genome [gene 0 0 2, gene 1 3 4] 5 1)
   \<and> \<not> equalFitness exact (genome [gene 0 0 2] 3 2) (genome [gene 0 0 2, gene 1 3 4] 5 1)
   \<and> (\<exists>res. Crossover exact (engine 2 False []) (\<lambda>_. 1 / 4) 0 (genome [gene 0 0 2] 3 2)
               (genome [gene 0 0 2, gene 1 3 4] 5 1) 0 = Inr res
            \<and> getNodeCount (child res) = 3 \<and> refs_ok (child res))
   \<and> refs_ok (genome [gene 0 0 2, gene 2 1 2] 3 1)
   \<and> refs_ok (genome [gene 0 0 2, gene 1 3 4, gene 3 0 3] 5 1)
   \<and> equalFitness exact (genome [gene 0 0 2, gene 2 1 2] 3 1)
         (genome [gene 0 0 2, gene 1 3 4, gene 3 0 3] 5 1)
   \<and> (\<exists>res. Crossover exact (engine 2 False []) (\<lambda>_. 1 / 4) (Suc (Suc (Suc 0)))
               (genome [gene 0 0 2, gene 2 1 2] 3 1)
               (genome [gene 0 0 2, gene 1 3 4, gene 3 0 3] 5 1) 0 = Inr res
            \<and> getNodeCount (child res) = 5 \<and> refs_ok (child res))"
proof -
  let ?E = "engine 2 False []"
  let ?d = "\<lambda>_::nat. 1 / 4 :: real"
  let ?f1 = "genome [gene 0 0 2] 3 2"
  let ?f2 = "genome [gene 0 0 2, gene 1 3 4] 5 1"
  let ?g1 = "genome [gene 0 0 2, gene 2 1 2] 3 1"
  let ?g2 = "genome [gene 0 0 2, gene 1 3 4, gene 3 0 3] 5 1"
  have f: "refs_ok ?f1" "refs_ok ?f2" and g: "refs_ok ?g1" "refs_ok ?g2"
    by (simp_all add: refs_ok_def genome_def gene_def getNodeCount_def)
  have ne: "\<not> equalFitness exact ?f1 ?f2"
    by (simp add: equalFitness_def genome_def exact_def)
  have eq: "equalFitness exact ?g1 ?g2"
    by (simp add: equalFitness_def genome_def exact_def)
  have cyc: "\<not> isAcyclic ?E"
    by (simp add: engine_def)
  have base: "\<exists>res. Crossover exact ?E ?d 0 ?f1 ?f2 0 = Inr res
                 \<and> getNodeCount (child res) = 3 \<and> refs_ok (child res)"
    using Crossover_node_count[OF f, of exact ?E ?d 0 0] ne
    by (simp add: genome_def getNodeCount_def)
  have "\<exists>res. Crossover exact ?E ?d (Suc (Suc (Suc 0))) ?g1 ?g2 0 = Inr res"
    using eq cyc by (simp add: Crossover_def cross_merge_def Let_def genome_def gene_def)
  then obtain res where
    run: "Crossover exact ?E ?d (Suc (Suc (Suc 0))) ?g1 ?g2 0 = Inr res"
    by blast
  have "getNodeCount (child res) = 5 \<and> refs_ok (child res)"
    using Crossover_node_count[OF g, of exact ?E ?d "Suc (Suc (Suc 0))" 0] eq cyc run
    by (simp add: genome_def getNodeCount_def)
  with run have merge: "\<exists>res. Crossover exact ?E ?d (Suc (Suc (Suc 0))) ?g1 ?g2 0 = Inr res
                 \<and> getNodeCount (child res) = 5 \<and> refs_ok (child res)"
    by blast
  from f ne base g eq merge show ?thesis by blast
qed

theorem fitter_parent_node_count:
  "Crossover exact (engine 2 False []) (\<lambda>_. 1 / 2) 0 (genome [gene 0 0 2] 3 2)
     (genome [gene 0 0 2, gene 1 3 4] 5 1) 0
     = Inr (cross_base exact (engine 2 False []) (\<lambda>_. 1 / 2) (genome [gene 0 0 2] 3 2)
              (genome [gene 0 0 2, gene 1 3 4] 5 1) 0)
   \<and> getNodeCount (child (cross_base exact (engine 2 False []) (\<lambda>_. 1 / 2)
                             (genome [gene 0 0 2] 3 2)
                             (genome [gene 0 0 2, gene 1 3 4] 5 1) 0)) = 3
   \<and> max (getNodeCount (genome [gene 0 0 2] 3 2))
         (getNodeCount (genome [gene 0 0 2, gene 1 3 4] 5 1)) = 5"
proof -
  let ?g1 = "genome [gene 0 0 2] 3 2"
  let ?g2 = "genome [gene 0 0 2, gene 1 3 4] 5 1"
  have ne: "\<not> equalFitness exact ?g1 ?g2"
    by (simp add: equalFitness_def genome_def exact_def)
  have "getNodeCount (child (cross_base exact (engine 2 False []) (\<lambda>_. 1 / 2) ?g1 ?g2 0)) = 3"
    by (simp add: cross_base_def choose_base_def equalFitness_def exact_def genome_def
          engine_def Genome_of_genes_def getNodeCount_def split: prod.splits)
  moreover have "max (getNodeCount ?g1) (getNodeCount ?g2) = 5"
    by (simp add: genome_def getNodeCount_def)
  moreover have "Crossover exact (engine 2 False []) (\<lambda>_. 1 / 2) 0 ?g1 ?g2 0
                   = Inr (cross_base exact (engine 2 False []) (\<lambda>_. 1 / 2) ?g1 ?g2 0)"
    using ne by (simp add: Crossover_def)
  ultimately show ?thesis by blast
qed

text \<open>
  C10. \<^verbatim>\<open>Crossover\<close> takes its parents by reference and changes neither: when it
  returns, both hold the genome they held at the call, with the same connection genes,
  node count, node depths and fitness.
\<close>

theorem Crossover_keeps_parents:
  assumes "Crossover a neat d fuel gen1 gen2 r = Inr res"
  shows "gen1_after res = gen1 \<and> gen2_after res = gen2"
proof (cases "\<not> equalFitness a gen1 gen2 \<or> isAcyclic neat")
  case True
  then have "res = cross_base a neat d gen1 gen2 r"
    using assms by (simp add: Crossover_def)
  then show ?thesis
    by (simp add: cross_base_def split: prod.splits)
next
  case False
  then have "cross_merge d fuel gen1 gen2 r = Inr res"
    using assms by (simp add: Crossover_def)
  then show ?thesis
    by (auto simp: cross_merge_def Let_def split: sum.splits prod.splits)
qed

theorem Crossover_keeps_parents_witness:
  "\<exists>res. Crossover exact (engine 2 False []) (\<lambda>_. 1 / 4) 0 (genome [gene 0 0 2] 3 2)
           (genome [gene 0 0 2, gene 1 3 4] 5 1) 0 = Inr res
         \<and> gen1_after res = genome [gene 0 0 2] 3 2
         \<and> gen2_after res = genome [gene 0 0 2, gene 1 3 4] 5 1"
proof -
  let ?g1 = "genome [gene 0 0 2] 3 2"
  let ?g2 = "genome [gene 0 0 2, gene 1 3 4] 5 1"
  have "\<not> equalFitness exact ?g1 ?g2"
    by (simp add: equalFitness_def genome_def exact_def)
  then have r: "Crossover exact (engine 2 False []) (\<lambda>_. 1 / 4) 0 ?g1 ?g2 0
                  = Inr (cross_base exact (engine 2 False []) (\<lambda>_. 1 / 4) ?g1 ?g2 0)"
    by (simp add: Crossover_def)
  show ?thesis
    using Crossover_keeps_parents[OF r] r by blast
qed

section \<open>The order of the innovation numbers\<close>

lemma asc_next:
  assumes "sorted_wrt (<) (map InnovationID genes)" and "Suc i < length genes"
  shows "InnovationID (genes ! i) < InnovationID (genes ! Suc i)"
  using sorted_wrt_nth_less[OF assms(1), of i "Suc i"] assms(2) by simp

lemma below_Nil: "below [] genes i"
  by (simp add: below_def)

lemma below_Suc:
  assumes "sorted_wrt (<) (map InnovationID genes)" and "below new genes i"
  shows "below new genes (Suc i)"
  unfolding below_def
proof (intro ballI impI)
  fix c assume c: "c \<in> set new" and s: "Suc i < length genes"
  then have "InnovationID c < InnovationID (genes ! i)"
    using assms(2) by (simp add: below_def)
  also have "\<dots> < InnovationID (genes ! Suc i)"
    using asc_next[OF assms(1) s] .
  finally show "InnovationID c < InnovationID (genes ! Suc i)" .
qed

lemma below_snoc:
  "below (new @ [c]) genes i \<longleftrightarrow>
     below new genes i \<and> (i < length genes \<longrightarrow> InnovationID c < InnovationID (genes ! i))"
  by (auto simp: below_def)

lemma ascending_snoc:
  assumes "sorted_wrt (<) (map InnovationID new)" and "below new genes i"
    and "i < length genes" and "InnovationID c = InnovationID (genes ! i)"
  shows "sorted_wrt (<) (map InnovationID (new @ [c]))"
  using assms by (auto simp: sorted_wrt_append below_def)

lemma merge_common_ascending:
  assumes M: "sorted_wrt (<) (map InnovationID maxL)"
    and m: "sorted_wrt (<) (map InnovationID minL)"
  shows "merge_common d fuel maxL minL minSize i j new r = Inr (i', new', r') \<Longrightarrow>
         sorted_wrt (<) (map InnovationID new) \<Longrightarrow> below new maxL i \<Longrightarrow>
         below new minL j \<Longrightarrow>
         sorted_wrt (<) (map InnovationID new') \<and> below new' maxL i'"
proof (induction fuel arbitrary: i j new r)
  case 0
  then show ?case by (auto split: if_splits)
next
  case (Suc fuel)
  note run = Suc.prems(1) and srt = Suc.prems(2) and bM = Suc.prems(3) and bm = Suc.prems(4)
  show ?case
  proof (cases "j < minSize")
    case False
    then show ?thesis using Suc.prems by auto
  next
    case True
    then have b: "i < length maxL" "j < length minL"
      using run by (auto split: if_splits)
    let ?a = "maxL ! i" and ?b = "minL ! j"
    have sa: "sorted_wrt (<) (map InnovationID (new @ [?a]))"
      using ascending_snoc[OF srt bM b(1)] by simp
    have sb: "sorted_wrt (<) (map InnovationID (new @ [?b]))"
      using ascending_snoc[OF srt bm b(2)] by simp
    have aM: "below (new @ [?a]) maxL (Suc i)"
      using below_Suc[OF M bM] asc_next[OF M, of i] by (simp add: below_snoc)
    have bm': "below (new @ [?b]) minL (Suc j)"
      using below_Suc[OF m bm] asc_next[OF m, of j] by (simp add: below_snoc)
    consider
        (min_taken) "InnovationID ?b < InnovationID ?a" "d r < 1 / 2"
      | (min_again) "InnovationID ?b < InnovationID ?a" "\<not> d r < 1 / 2"
      | (both) "InnovationID ?b = InnovationID ?a"
      | (max_taken) "InnovationID ?a < InnovationID ?b" "d r < 1 / 2"
      | (max_again) "InnovationID ?a < InnovationID ?b" "\<not> d r < 1 / 2"
      by (cases "InnovationID ?b" "InnovationID ?a" rule: linorder_cases) auto
    then show ?thesis
    proof cases
      case min_taken
      then have step: "merge_common d fuel maxL minL minSize i (Suc j) (new @ [?b]) (Suc r)
                         = Inr (i', new', r')"
        using run True b by simp
      have "below (new @ [?b]) maxL i"
        using bM min_taken(1) by (simp add: below_snoc)
      then show ?thesis by (rule Suc.IH[OF step sb _ bm'])
    next
      case min_again
      then have step: "merge_common d fuel maxL minL minSize i j new (Suc r)
                         = Inr (i', new', r')"
        using run True b by simp
      show ?thesis by (rule Suc.IH[OF step srt bM bm])
    next
      case both
      let ?c = "if d r < 1 / 2 then ?b else ?a"
      have step: "merge_common d fuel maxL minL minSize (Suc i) (Suc j) (new @ [?c]) (Suc r)
                    = Inr (i', new', r')"
        using run True b both by simp
      have id: "InnovationID ?c = InnovationID ?a" "InnovationID ?c = InnovationID ?b"
        using both by simp_all
      have s: "sorted_wrt (<) (map InnovationID (new @ [?c]))"
        using ascending_snoc[OF srt bM b(1) id(1)] .
      have cM: "below (new @ [?c]) maxL (Suc i)"
        using below_Suc[OF M bM] asc_next[OF M, of i] id(1) by (simp add: below_snoc)
      have cm: "below (new @ [?c]) minL (Suc j)"
        using below_Suc[OF m bm] asc_next[OF m, of j] id(2) by (simp add: below_snoc)
      show ?thesis by (rule Suc.IH[OF step s cM cm])
    next
      case max_taken
      then have step: "merge_common d fuel maxL minL minSize (Suc i) j (new @ [?a]) (Suc r)
                         = Inr (i', new', r')"
        using run True b by simp
      have "below (new @ [?a]) minL j"
        using bm max_taken(1) by (simp add: below_snoc)
      then show ?thesis by (rule Suc.IH[OF step sa aM])
    next
      case max_again
      then have step: "merge_common d fuel maxL minL minSize i j new (Suc r)
                         = Inr (i', new', r')"
        using run True b by simp
      show ?thesis by (rule Suc.IH[OF step srt bM bm])
    qed
  qed
qed

lemma merge_rest_ascending:
  assumes M: "sorted_wrt (<) (map InnovationID maxL)"
  shows "merge_rest d fuel maxL maxSize i new r = Inr (new', r') \<Longrightarrow>
         sorted_wrt (<) (map InnovationID new) \<Longrightarrow> below new maxL i \<Longrightarrow>
         sorted_wrt (<) (map InnovationID new')"
proof (induction fuel arbitrary: i new r)
  case 0
  then show ?case by (auto split: if_splits)
next
  case (Suc fuel)
  note run = Suc.prems(1) and srt = Suc.prems(2) and bM = Suc.prems(3)
  show ?case
  proof (cases "i < maxSize")
    case False
    then show ?thesis using Suc.prems by auto
  next
    case True
    then have b: "i < length maxL"
      using run by (auto split: if_splits)
    show ?thesis
    proof (cases "d r < 1 / 2")
      case taken: True
      then have step: "merge_rest d fuel maxL maxSize (Suc i) (new @ [maxL ! i]) (Suc r)
                         = Inr (new', r')"
        using run True b by simp
      have s: "sorted_wrt (<) (map InnovationID (new @ [maxL ! i]))"
        using ascending_snoc[OF srt bM b] by simp
      have "below (new @ [maxL ! i]) maxL (Suc i)"
        using below_Suc[OF M bM] asc_next[OF M, of i] by (simp add: below_snoc)
      then show ?thesis by (rule Suc.IH[OF step s])
    next
      case False
      then have step: "merge_rest d fuel maxL maxSize i new (Suc r) = Inr (new', r')"
        using run True b by simp
      show ?thesis by (rule Suc.IH[OF step srt bM])
    qed
  qed
qed

lemma cross_merge_ascending:
  assumes "cross_merge d fuel gen1 gen2 r = Inr res"
    and "ascending gen1" and "ascending gen2"
  shows "ascending (child res)"
proof -
  define maxG where "maxG = (if length (connectionGeneList gen1) > length (connectionGeneList gen2)
                             then gen1 else gen2)"
  define minG where "minG = (if length (connectionGeneList gen1) < length (connectionGeneList gen2)
                             then gen1 else gen2)"
  define minSize where "minSize = (if length (connectionGeneList gen1) < length (connectionGeneList gen2)
                             then length (connectionGeneList gen1) else length (connectionGeneList gen2))"
  define maxSize where "maxSize = (if length (connectionGeneList gen1) > length (connectionGeneList gen2)
                             then length (connectionGeneList gen1) else length (connectionGeneList gen2))"
  from assms(1) obtain i new1 r1 new2 r2 where
    c: "merge_common d fuel (connectionGeneList maxG) (connectionGeneList minG) minSize 0 0 [] r
          = Inr (i, new1, r1)"
    and mr: "merge_rest d fuel (connectionGeneList maxG) maxSize i new1 r1 = Inr (new2, r2)"
    and res: "connectionGeneList (child res) = new2"
    unfolding cross_merge_def Let_def maxG_def[symmetric] minG_def[symmetric]
      minSize_def[symmetric] maxSize_def[symmetric]
    by (auto simp: Genome_of_genes_def split: sum.splits prod.splits)
  have M: "sorted_wrt (<) (map InnovationID (connectionGeneList maxG))"
    and m: "sorted_wrt (<) (map InnovationID (connectionGeneList minG))"
    using assms(2,3) by (simp_all add: maxG_def minG_def ascending_def)
  have "sorted_wrt (<) (map InnovationID new1) \<and> below new1 (connectionGeneList maxG) i"
    by (rule merge_common_ascending[OF M m c]) (simp_all add: below_Nil)
  then have "sorted_wrt (<) (map InnovationID new2)"
    using merge_rest_ascending[OF M mr] by simp
  then show ?thesis by (simp add: ascending_def res)
qed

text \<open>
  A child that \<^verbatim>\<open>Crossover\<close> returns for parents in the order of the data model is
  in that order, and so has no innovation number twice.
\<close>

lemma Crossover_ascending:
  assumes "Crossover a neat d fuel gen1 gen2 r = Inr res"
    and "ascending gen1" and "ascending gen2"
  shows "ascending (child res)"
proof (cases "\<not> equalFitness a gen1 gen2 \<or> isAcyclic neat")
  case True
  then have res: "res = cross_base a neat d gen1 gen2 r"
    using assms(1) by (simp add: Crossover_def)
  have "ascending (fst (choose_base a d gen1 gen2 r))"
    using assms(2,3) choose_base_parent[of a d gen1 gen2 r] by auto
  then show ?thesis
    using cross_base_genes[of a neat d gen1 gen2 r] by (simp add: ascending_def res)
next
  case False
  then have "cross_merge d fuel gen1 gen2 r = Inr res"
    using assms(1) by (simp add: Crossover_def)
  then show ?thesis using assms(2,3) by (rule cross_merge_ascending)
qed

lemma ascending_distinct:
  "ascending g \<Longrightarrow> distinct (map InnovationID (connectionGeneList g))"
  by (simp add: ascending_def strict_sorted_iff)

text \<open>
  The order is needed. Parents whose innovation numbers are distinct but do not ascend
  can merge into a child that has an innovation number twice.
\<close>

lemma merge_of_unordered_parents:
  "\<exists>res. Crossover exact (engine 2 False []) (\<lambda>_. 1 / 4) (Suc (Suc 0))
            (genome [gene 5 0 2, gene 3 1 2] 3 1) (genome [gene 3 0 2] 3 1) 0 = Inr res
         \<and> map InnovationID (connectionGeneList (child res)) = [3, 5, 3]"
  by (simp add: Crossover_def cross_merge_def Let_def equalFitness_def exact_def engine_def
        genome_def gene_def Genome_of_genes_def)

text \<open>
  The first loop of the gene merge never ends with a result when the last gene that it
  is to reach in the shorter list is newer than every gene of the longer list: the
  index into the shorter list cannot get past a gene that is not older than the one
  it is compared with.
\<close>

lemma merge_common_overrun:
  assumes "minSize \<le> length minL"
    and "\<forall>c\<in>set maxL. InnovationID c < InnovationID (minL ! (minSize - 1))"
  shows "j < minSize \<Longrightarrow> \<exists>e. merge_common d fuel maxL minL minSize i j new r = Inl e"
proof (induction fuel arbitrary: i j new r)
  case 0
  then show ?case by simp
next
  case (Suc fuel)
  show ?case
  proof (cases "length maxL \<le> i \<or> length minL \<le> j")
    case True
    then show ?thesis using Suc.prems by simp
  next
    case False
    then have "maxL ! i \<in> set maxL" by simp
    then have newer: "InnovationID (maxL ! i) < InnovationID (minL ! (minSize - 1))"
      using assms(2) by blast
    have next_j: "Suc j < minSize"
      if "InnovationID (minL ! j) \<le> InnovationID (maxL ! i)"
    proof (rule ccontr)
      assume "\<not> Suc j < minSize"
      then have "j = minSize - 1" using Suc.prems by simp
      then show False using that newer by simp
    qed
    have stay: "\<exists>e. merge_common d fuel maxL minL minSize i' j new' (Suc r) = Inl e"
      for i' new'
      using Suc.prems by (rule Suc.IH)
    have move: "\<exists>e. merge_common d fuel maxL minL minSize i' (Suc j) new' (Suc r) = Inl e"
      if "InnovationID (minL ! j) \<le> InnovationID (maxL ! i)" for i' new'
      using next_j[OF that] by (rule Suc.IH)
    show ?thesis
      using False Suc.prems stay move by simp
  qed
qed

text \<open>
  C9. No two connection genes of a genome should share an innovation number, in every
  genome of a run, the children of \<^verbatim>\<open>Crossover\<close> among them. The first loop of the
  gene merge reads \<^verbatim>\<open>maxGenome.connectionGeneList[i]\<close> with no test of \<open>i\<close>
  against the size of that list. When the parent with fewer genes ends with a gene
  newer than every gene of the other parent, as it does after a mutation of its own,
  the loop uses the longer list up and reads it past its end: for such parents of
  equal fitness in an engine that is not acyclic, \<^verbatim>\<open>Crossover\<close> returns no child,
  whatever the draws and however many iterations are allowed. What the code puts into
  the child there is what lies behind the list.
\<close>

theorem merge_reads_past_end:
  assumes "equalFitness a gen1 gen2" and "\<not> isAcyclic neat"
    and "(gen1 = shorter \<and> gen2 = longer) \<or> (gen1 = longer \<and> gen2 = shorter)"
    and "length (connectionGeneList shorter) < length (connectionGeneList longer)"
    and "connectionGeneList shorter \<noteq> []"
    and "\<forall>c\<in>set (connectionGeneList longer).
           InnovationID c < InnovationID (last (connectionGeneList shorter))"
  shows "\<exists>e. Crossover a neat d fuel gen1 gen2 r = Inl e"
proof -
  let ?maxL = "connectionGeneList longer" and ?minL = "connectionGeneList shorter"
  have newer: "\<forall>c\<in>set ?maxL. InnovationID c < InnovationID (?minL ! (length ?minL - 1))"
    using assms(5,6) by (simp add: last_conv_nth)
  have "0 < length ?minL" using assms(5) by simp
  then obtain e where
    e: "merge_common d fuel ?maxL ?minL (length ?minL) 0 0 [] r = Inl e"
    using merge_common_overrun[OF _ newer, of 0 d fuel 0 "[]" r] by auto
  have "cross_merge d fuel gen1 gen2 r = Inl e"
    using assms(3,4) e by (auto simp: cross_merge_def Let_def)
  then show ?thesis
    using assms(1,2) by (simp add: Crossover_def)
qed

theorem merge_reads_past_end_witness:
  "equalFitness exact (genome [gene 1 0 2, gene 2 1 2] 3 1) (genome [gene 5 0 2] 3 1)
   \<and> \<not> isAcyclic (engine 2 False [])
   \<and> ascending (genome [gene 1 0 2, gene 2 1 2] 3 1) \<and> ascending (genome [gene 5 0 2] 3 1)
   \<and> Crossover exact (engine 2 False []) (\<lambda>_. 1 / 4) (Suc (Suc (Suc 0)))
         (genome [gene 1 0 2, gene 2 1 2] 3 1) (genome [gene 5 0 2] 3 1) 0 = Inl OutOfBounds
   \<and> (\<exists>e. Crossover exact (engine 2 False []) (\<lambda>_. 3 / 4) 1000
            (genome [gene 1 0 2, gene 2 1 2] 3 1) (genome [gene 5 0 2] 3 1) 0 = Inl e)"
proof -
  let ?long = "genome [gene 1 0 2, gene 2 1 2] 3 1"
  let ?short = "genome [gene 5 0 2] 3 1"
  let ?E = "engine 2 False []"
  have eq: "equalFitness exact ?long ?short"
    by (simp add: equalFitness_def genome_def exact_def)
  have cyc: "\<not> isAcyclic ?E"
    by (simp add: engine_def)
  have asc: "ascending ?long" "ascending ?short"
    by (simp_all add: ascending_def genome_def gene_def)
  have side: "(?long = ?short \<and> ?short = ?long) \<or> (?long = ?long \<and> ?short = ?short)"
    by simp
  have len: "length (connectionGeneList ?short) < length (connectionGeneList ?long)"
    by (simp add: genome_def)
  have ne: "connectionGeneList ?short \<noteq> []"
    by (simp add: genome_def)
  have newer: "\<forall>c\<in>set (connectionGeneList ?long).
                 InnovationID c < InnovationID (last (connectionGeneList ?short))"
    by (simp add: genome_def gene_def)
  have run: "Crossover exact ?E (\<lambda>_. 1 / 4) (Suc (Suc (Suc 0))) ?long ?short 0
               = Inl OutOfBounds"
    using eq cyc by (simp add: Crossover_def cross_merge_def Let_def genome_def gene_def)
  have "\<exists>e. Crossover exact ?E (\<lambda>_. 3 / 4) 1000 ?long ?short 0 = Inl e"
    using merge_reads_past_end[OF eq cyc side len ne newer, of "\<lambda>_. 3 / 4" 1000 0] .
  with eq cyc asc run show ?thesis by blast
qed


end
